theory Spec2Isabelle
  imports Complex_Main
begin

section \<open>Data model\<close>

text \<open>
  The repository prepares therapy-session recordings in three stages:
  \<^item> \<^verbatim>\<open>data.py\<close>, \<^verbatim>\<open>process_audio_file\<close>: every transcript segment gets the label of a
    diarization segment (the aligner);
  \<^item> \<^verbatim>\<open>preprocess_data.py\<close> and \<^verbatim>\<open>preprocessing_data_3.py\<close>,
    \<^verbatim>\<open>ConversationConverter.group_consecutive_utterances\<close>: consecutive utterances of one
    role are merged (the grouper, in two variants);
  \<^item> \<^verbatim>\<open>create_dialogue_pairs\<close> / \<^verbatim>\<open>convert_to_training_format\<close> and
    \<^verbatim>\<open>create_sliding_window_conversations\<close>: groups become messages and windows.

  Python strings are \<^typ>\<open>string\<close>; the role of a group, one of the Python values
  \<^verbatim>\<open>None\<close>, \<^verbatim>\<open>'therapist'\<close>, \<^verbatim>\<open>'client'\<close>, is a \<^typ>\<open>'a option\<close> over a two-element
  datatype. Dictionaries with a fixed set of keys are records.
\<close>

datatype role = Therapist | Client

text \<open>The three attributes of \<^verbatim>\<open>ConversationConverter\<close>.\<close>

record converter =
  speaker_mapping :: "string \<rightharpoonup> string"
  excluded_speakers :: "string set"
  therapist_speakers :: "string set"

text \<open>An utterance, \<^verbatim>\<open>{'speaker': ..., 'text': ...}\<close>.\<close>

record utterance =
  speaker :: string
  utext :: string

text \<open>
  A group of \<^verbatim>\<open>preprocess_data.py\<close> is \<^verbatim>\<open>{'role': ..., 'content': [...]}\<close>; the groups of
  \<^verbatim>\<open>preprocessing_data_3.py\<close> carry \<^verbatim>\<open>'current_speaker'\<close> as a third key.
\<close>

record group =
  role :: "role option"
  content :: "string list"

record group3 = group +
  current_speaker :: "string option"

text \<open>A message, \<^verbatim>\<open>{"from": ..., "value": ...}\<close>, and a window, \<^verbatim>\<open>{"conversations": [...]}\<close>.\<close>

record message =
  sender :: string
  msg_value :: string

record conversation =
  conversations :: "message list"

section \<open>The converter's setup\<close>

text \<open>
  \<^verbatim>\<open>__init__\<close> and \<^verbatim>\<open>setup_speaker_mapping\<close> (the same in both modules). The partner
  mappings are a dictionary from a partner name to a list of speakers, visited in insertion
  order; the therapists are written into \<^verbatim>\<open>speaker_mapping\<close> last.
\<close>

definition init_converter :: converter where
  "init_converter =
     \<lparr>speaker_mapping = Map.empty, excluded_speakers = {}, therapist_speakers = {}\<rparr>"

definition setup_speaker_mapping ::
  "converter \<Rightarrow> string list \<Rightarrow> (string \<times> string list) list \<Rightarrow> string list \<Rightarrow> converter" where
  "setup_speaker_mapping c therapists partner_mappings excluded =
     (let m1 = foldl (\<lambda>m (partner_name, speakers).
                        foldl (\<lambda>m' sp. m'(sp \<mapsto> partner_name)) m speakers)
                 (speaker_mapping c) partner_mappings;
          m2 = foldl (\<lambda>m therapist. m(therapist \<mapsto> ''therapist'')) m1 therapists
      in \<lparr>speaker_mapping = m2, excluded_speakers = set excluded,
          therapist_speakers = set therapists\<rparr>)"

section \<open>The grouper\<close>

text \<open>
  The role of a speaker, as the loop body decides it: \<^verbatim>\<open>None\<close> stands for both
  \<^verbatim>\<open>continue\<close> statements (an excluded speaker, an unknown speaker).
\<close>

definition determine_role :: "converter \<Rightarrow> string \<Rightarrow> role option" where
  "determine_role c sp =
     (if sp \<in> excluded_speakers c then None
      else if sp \<in> therapist_speakers c then Some Therapist
      else if sp \<in> dom (speaker_mapping c) then Some Client
      else None)"

text \<open>The line a client utterance contributes when it is prefixed.\<close>

definition prefixed :: "string \<Rightarrow> string \<Rightarrow> string" where
  "prefixed partner_name t = ''['' @ partner_name @ '']: '' @ t"

subsection \<open>\<^verbatim>\<open>preprocess_data.py\<close>: every client line is prefixed\<close>

text \<open>
  The state of the loop is the pair of \<^verbatim>\<open>grouped\<close> and \<^verbatim>\<open>current_group\<close>. A role change
  appends the current group to \<^verbatim>\<open>grouped\<close> (unless its role is \<^verbatim>\<open>None\<close>) and opens an
  empty one.
\<close>

definition open_group :: "role \<Rightarrow> group list \<times> group \<Rightarrow> group list \<times> group" where
  "open_group r st =
     (case st of (grouped, current_group) \<Rightarrow>
        if role current_group \<noteq> Some r
        then (if role current_group \<noteq> None then grouped @ [current_group] else grouped,
              \<lparr>role = Some r, content = []\<rparr>)
        else (grouped, current_group))"

definition append_line :: "string \<Rightarrow> group list \<times> group \<Rightarrow> group list \<times> group" where
  "append_line l st =
     (case st of (grouped, current_group) \<Rightarrow>
        (grouped, current_group\<lparr>content := content current_group @ [l]\<rparr>))"

definition group_step :: "converter \<Rightarrow> group list \<times> group \<Rightarrow> utterance \<Rightarrow> group list \<times> group" where
  "group_step c st u =
     (case determine_role c (speaker u) of
        None \<Rightarrow> st
      | Some Therapist \<Rightarrow> append_line (utext u) (open_group Therapist st)
      | Some Client \<Rightarrow>
          (case speaker_mapping c (speaker u) of
             None \<Rightarrow> st
           | Some partner_name \<Rightarrow>
               append_line (prefixed partner_name (utext u)) (open_group Client st)))"

definition close_group :: "group list \<times> group \<Rightarrow> group list" where
  "close_group st =
     (case st of (grouped, current_group) \<Rightarrow>
        if role current_group \<noteq> None then grouped @ [current_group] else grouped)"

definition group_consecutive_utterances :: "converter \<Rightarrow> utterance list \<Rightarrow> group list" where
  "group_consecutive_utterances c utterances =
     (if utterances = [] then []
      else close_group (foldl (group_step c) ([], \<lparr>role = None, content = []\<rparr>) utterances))"

subsection \<open>\<^verbatim>\<open>preprocessing_data_3.py\<close>: a client line is prefixed when the partner changes\<close>

definition open_group3 :: "role \<Rightarrow> group3 list \<times> group3 \<Rightarrow> group3 list \<times> group3" where
  "open_group3 r st =
     (case st of (grouped, current_group) \<Rightarrow>
        if role current_group \<noteq> Some r
        then (if role current_group \<noteq> None then grouped @ [current_group] else grouped,
              \<lparr>role = Some r, content = [], current_speaker = None\<rparr>)
        else (grouped, current_group))"

definition append_line3 :: "string \<Rightarrow> group3 list \<times> group3 \<Rightarrow> group3 list \<times> group3" where
  "append_line3 l st =
     (case st of (grouped, current_group) \<Rightarrow>
        (grouped, current_group\<lparr>content := content current_group @ [l]\<rparr>))"

definition append_client3 :: "string \<Rightarrow> string \<Rightarrow> group3 list \<times> group3 \<Rightarrow> group3 list \<times> group3" where
  "append_client3 partner_name t st =
     (case st of (grouped, current_group) \<Rightarrow>
        if current_speaker current_group \<noteq> Some partner_name
        then (grouped, current_group\<lparr>content := content current_group @ [prefixed partner_name t],
                                     current_speaker := Some partner_name\<rparr>)
        else (grouped, current_group\<lparr>content := content current_group @ [t]\<rparr>))"

definition group_step3 :: "converter \<Rightarrow> group3 list \<times> group3 \<Rightarrow> utterance \<Rightarrow> group3 list \<times> group3" where
  "group_step3 c st u =
     (case determine_role c (speaker u) of
        None \<Rightarrow> st
      | Some Therapist \<Rightarrow> append_line3 (utext u) (open_group3 Therapist st)
      | Some Client \<Rightarrow>
          (case speaker_mapping c (speaker u) of
             None \<Rightarrow> st
           | Some partner_name \<Rightarrow>
               append_client3 partner_name (utext u) (open_group3 Client st)))"

definition close_group3 :: "group3 list \<times> group3 \<Rightarrow> group3 list" where
  "close_group3 st =
     (case st of (grouped, current_group) \<Rightarrow>
        if role current_group \<noteq> None then grouped @ [current_group] else grouped)"

definition group_consecutive_utterances3 :: "converter \<Rightarrow> utterance list \<Rightarrow> group3 list" where
  "group_consecutive_utterances3 c utterances =
     (if utterances = [] then []
      else close_group3
             (foldl (group_step3 c)
                ([], \<lparr>role = None, content = [], current_speaker = None\<rparr>) utterances))"

subsection \<open>Speakers that contribute nothing, and lines that carry an utterance\<close>

text \<open>
  An utterance is dropped when its speaker is excluded, or is in none of the therapist set,
  the excluded set and the mapping.
\<close>

definition dropped :: "converter \<Rightarrow> utterance \<Rightarrow> bool" where
  "dropped c u =
     (speaker u \<in> excluded_speakers c \<or>
      (speaker u \<notin> therapist_speakers c \<and> speaker u \<notin> excluded_speakers c \<and>
       speaker u \<notin> dom (speaker_mapping c)))"

text \<open>
  A line carries an utterance when it is the utterance's text, after the bracketed name of
  the partner the speaker is mapped to or after nothing; a therapist's line is the text.
\<close>

definition carries :: "converter \<Rightarrow> utterance \<Rightarrow> string \<Rightarrow> bool" where
  "carries c u l =
     (if speaker u \<in> therapist_speakers c then l = utext u
      else (case speaker_mapping c (speaker u) of
              None \<Rightarrow> False
            | Some partner_name \<Rightarrow> l = utext u \<or> l = prefixed partner_name (utext u)))"

text \<open>Two lines that differ at most in a partner prefix, and two groups that do.\<close>

definition differ_by_prefix :: "string \<Rightarrow> string \<Rightarrow> bool" where
  "differ_by_prefix l1 l3 = (l1 = l3 \<or> (\<exists>partner_name. l1 = prefixed partner_name l3))"

definition same_turn :: "group \<Rightarrow> group3 \<Rightarrow> bool" where
  "same_turn g1 g3 =
     (role g1 = role g3 \<and> length (content g1) = length (content g3) \<and>
      (if role g1 = Some Client then list_all2 differ_by_prefix (content g1) (content g3)
       else content g1 = content g3))"

section \<open>Messages and windows\<close>

text \<open>Python's \<^verbatim>\<open>sep.join(xs)\<close>.\<close>

fun join :: "string \<Rightarrow> string list \<Rightarrow> string" where
  "join sep [] = []"
| "join sep [x] = x"
| "join sep (x # y # ys) = x @ sep @ join sep (y # ys)"

text \<open>
  \<^verbatim>\<open>convert_to_training_format\<close> of \<^verbatim>\<open>preprocess_data.py\<close> joins the lines with a newline,
  \<^verbatim>\<open>create_dialogue_pairs\<close> of \<^verbatim>\<open>preprocessing_data_3.py\<close> with a space. In both a group
  whose role is not \<^verbatim>\<open>'client'\<close> becomes a \<^verbatim>\<open>"gpt"\<close> message. The field \<^const>\<open>sender\<close> is the
  key \<^verbatim>\<open>"from"\<close>.
\<close>

definition convert_to_training_format :: "group list \<Rightarrow> message list" where
  "convert_to_training_format grouped_utterances =
     map (\<lambda>g. if role g = Some Client
              then \<lparr>sender = ''human'', msg_value = join [CHR 0x0A] (content g)\<rparr>
              else \<lparr>sender = ''gpt'', msg_value = join [CHR 0x0A] (content g)\<rparr>)
       grouped_utterances"

definition create_dialogue_pairs :: "group3 list \<Rightarrow> message list" where
  "create_dialogue_pairs grouped_utterances =
     map (\<lambda>g. if role g = Some Client
              then \<lparr>sender = ''human'', msg_value = join '' '' (content g)\<rparr>
              else \<lparr>sender = ''gpt'', msg_value = join '' '' (content g)\<rparr>)
       grouped_utterances"

text \<open>
  The scan for valid pairs, \<^verbatim>\<open>while i < len(dialogue_pairs) - 1\<close>: over the integers the
  test is \<open>i + 1 < len\<close>, so both reads are in range.
\<close>

function find_valid_pairs :: "message list \<Rightarrow> nat \<Rightarrow> (nat \<times> nat) list \<Rightarrow> (nat \<times> nat) list" where
  "find_valid_pairs dialogue_pairs i valid_pairs =
     (if i + 1 < length dialogue_pairs
      then (if sender (dialogue_pairs ! i) = ''human'' \<and>
               sender (dialogue_pairs ! (i + 1)) = ''gpt''
            then find_valid_pairs dialogue_pairs (i + 2) (valid_pairs @ [(i, i + 1)])
            else find_valid_pairs dialogue_pairs (i + 1) valid_pairs)
      else valid_pairs)"
  by pat_completeness auto
termination
  by (relation "measure (\<lambda>(dialogue_pairs, i, valid_pairs). length dialogue_pairs - i)") auto

declare find_valid_pairs.simps [simp del]

text \<open>
  The messages of one window. \<^verbatim>\<open>window_size\<close> is a Python integer;
  \<^verbatim>\<open>start_idx = max(0, pair_idx - window_size + 1)\<close> is never negative, and
  \<^verbatim>\<open>range(start_idx, pair_idx + 1)\<close> stays below \<^verbatim>\<open>len(valid_pairs)\<close>.
\<close>

definition window_messages :: "message list \<Rightarrow> (nat \<times> nat) list \<Rightarrow> int \<Rightarrow> nat \<Rightarrow> message list" where
  "window_messages dialogue_pairs valid_pairs window_size pair_idx =
     (let start_idx = max 0 (int pair_idx - window_size + 1)
      in concat (map (\<lambda>window_pair_idx.
                        case valid_pairs ! window_pair_idx of
                          (human_idx, gpt_idx) \<Rightarrow>
                            [dialogue_pairs ! human_idx, dialogue_pairs ! gpt_idx])
                   [nat start_idx ..< pair_idx + 1]))"

definition create_sliding_window_conversations :: "message list \<Rightarrow> int \<Rightarrow> conversation list" where
  "create_sliding_window_conversations dialogue_pairs window_size =
     (if length dialogue_pairs < 2 then []
      else (let valid_pairs = find_valid_pairs dialogue_pairs 0 []
            in map (\<lambda>pair_idx.
                      \<lparr>conversations =
                         window_messages dialogue_pairs valid_pairs window_size pair_idx\<rparr>)
                 [0 ..< length valid_pairs]))"

text \<open>
  The scan in the words of the specification, as a recursion over the messages that are
  left: a human message directly followed by a gpt message is an exchange and both are
  consumed, any other message is skipped alone.
\<close>

fun exchange_scan :: "nat \<Rightarrow> message list \<Rightarrow> (nat \<times> nat) list" where
  "exchange_scan i (a # b # rest) =
     (if sender a = ''human'' \<and> sender b = ''gpt''
      then (i, i + 1) # exchange_scan (i + 2) rest
      else exchange_scan (i + 1) (b # rest))"
| "exchange_scan i [a] = []"
| "exchange_scan i [] = []"

text \<open>The two messages of an exchange.\<close>

definition exchange_messages :: "message list \<Rightarrow> nat \<times> nat \<Rightarrow> message list" where
  "exchange_messages dialogue_pairs p = [dialogue_pairs ! fst p, dialogue_pairs ! snd p]"

section \<open>The aligner\<close>

text \<open>
  \<^verbatim>\<open>process_audio_file\<close> of \<^verbatim>\<open>data.py\<close>, from the point where both segment sequences are
  there. Times are Python floats, that is, IEEE doubles. A double is modelled as the real
  number it stands for, and every addition, subtraction and division of the source rounds its
  exact result to a double again: the rounding function \<open>rnd\<close> is a parameter of the model,
  and the code is the model at the rounding of doubles to the nearest. Comparisons, \<^verbatim>\<open>min\<close>,
  \<^verbatim>\<open>max\<close> and \<^verbatim>\<open>abs\<close> do not round. Infinities and NaN are outside the model. A float
  division by zero raises \<^verbatim>\<open>ZeroDivisionError\<close>. The speaker tag of a diarization segment
  is kept as the text that the f-string \<^verbatim>\<open>f"Speaker {tag}"\<close> renders.
\<close>

datatype error = ZeroDivisionError

record transcript_segment =
  t_start :: real
  t_end :: real
  t_text :: string

record speaker_segment =
  start_sec :: real
  end_sec :: real
  speaker_tag :: string

definition segment_score ::
  "(real \<Rightarrow> real) \<Rightarrow> transcript_segment \<Rightarrow> speaker_segment \<Rightarrow> error + real" where
  "segment_score rnd t s =
     (let overlap = rnd (min (t_end t) (end_sec s) - max (t_start t) (start_sec s));
          duration = rnd (t_end t - t_start t)
      in if duration = 0 then Inl ZeroDivisionError
         else Inr (rnd (overlap / duration)))"

text \<open>
  The first inner loop, with its two variables \<^verbatim>\<open>max_score\<close> and \<^verbatim>\<open>best_s_segment\<close>; an
  exception of \<^verbatim>\<open>segment_score\<close> leaves the loop.
\<close>

fun best_loop ::
  "(real \<Rightarrow> real) \<Rightarrow> transcript_segment \<Rightarrow> speaker_segment list \<Rightarrow> real \<Rightarrow>
     speaker_segment option \<Rightarrow> error + speaker_segment option" where
  "best_loop rnd t [] max_score best_s_segment = Inr best_s_segment"
| "best_loop rnd t (s # ss) max_score best_s_segment =
     (case segment_score rnd t s of
        Inl e \<Rightarrow> Inl e
      | Inr score \<Rightarrow>
          if score > max_score then best_loop rnd t ss score (Some s)
          else best_loop rnd t ss max_score best_s_segment)"

definition best_segment ::
  "(real \<Rightarrow> real) \<Rightarrow> transcript_segment \<Rightarrow> speaker_segment list \<Rightarrow>
     error + speaker_segment option" where
  "best_segment rnd t speaker_segments = best_loop rnd t speaker_segments 0 None"

text \<open>
  The fallback loop, with \<^verbatim>\<open>min_distance\<close> and \<^verbatim>\<open>closest_segment\<close>. \<^verbatim>\<open>float('inf')\<close> is
  \<^const>\<open>None\<close>: every distance is below it.
\<close>

fun closest_loop ::
  "(real \<Rightarrow> real) \<Rightarrow> real \<Rightarrow> speaker_segment list \<Rightarrow> real option \<Rightarrow>
     speaker_segment option \<Rightarrow> speaker_segment option" where
  "closest_loop rnd t_mid [] min_distance closest_segment = closest_segment"
| "closest_loop rnd t_mid (s # ss) min_distance closest_segment =
     (let s_mid = rnd (rnd (start_sec s + end_sec s) / 2);
          distance = \<bar>rnd (t_mid - s_mid)\<bar>
      in if (case min_distance of None \<Rightarrow> True | Some m \<Rightarrow> distance < m)
         then closest_loop rnd t_mid ss (Some distance) (Some s)
         else closest_loop rnd t_mid ss min_distance closest_segment)"

definition closest_segment ::
  "(real \<Rightarrow> real) \<Rightarrow> transcript_segment \<Rightarrow> speaker_segment list \<Rightarrow>
     speaker_segment option" where
  "closest_segment rnd t speaker_segments =
     (let t_mid = rnd (rnd (t_start t + t_end t) / 2)
      in closest_loop rnd t_mid speaker_segments None None)"

definition speaker_label ::
  "(real \<Rightarrow> real) \<Rightarrow> transcript_segment \<Rightarrow> speaker_segment list \<Rightarrow> error + string" where
  "speaker_label rnd t speaker_segments =
     (case best_segment rnd t speaker_segments of
        Inl e \<Rightarrow> Inl e
      | Inr (Some best_s_segment) \<Rightarrow> Inr (''Speaker '' @ speaker_tag best_s_segment)
      | Inr None \<Rightarrow>
          (case closest_segment rnd t speaker_segments of
             Some closest \<Rightarrow> Inr (''Speaker '' @ speaker_tag closest)
           | None \<Rightarrow> Inr ''Speaker Unknown''))"

text \<open>
  The outer loop. Each pass writes one line, \<^verbatim>\<open>f"{speaker_label}: {t_segment['text']}"\<close>,
  at once; the model emits the pair of the label and the text as an \<^typ>\<open>utterance\<close>, and
  \<^verbatim>\<open>format_line\<close> is the line written for it. The result is what has been emitted, and the
  exception that ended the loop, if one did.
\<close>

definition format_line :: "utterance \<Rightarrow> string" where
  "format_line u = speaker u @ '': '' @ utext u"

fun align_loop ::
  "(real \<Rightarrow> real) \<Rightarrow> speaker_segment list \<Rightarrow> transcript_segment list \<Rightarrow> utterance list \<Rightarrow>
     utterance list \<times> error option" where
  "align_loop rnd speaker_segments [] emitted = (emitted, None)"
| "align_loop rnd speaker_segments (t # ts) emitted =
     (case speaker_label rnd t speaker_segments of
        Inl e \<Rightarrow> (emitted, Some e)
      | Inr l \<Rightarrow>
          align_loop rnd speaker_segments ts (emitted @ [\<lparr>speaker = l, utext = t_text t\<rparr>]))"

definition align ::
  "(real \<Rightarrow> real) \<Rightarrow> transcript_segment list \<Rightarrow> speaker_segment list \<Rightarrow>
     utterance list \<times> error option" where
  "align rnd transcript_segments speaker_segments =
     align_loop rnd speaker_segments transcript_segments []"

text \<open>The text of the file the aligner writes: every line is followed by a newline.\<close>

definition final_text :: "utterance list \<Rightarrow> string" where
  "final_text emitted = concat (map (\<lambda>u. format_line u @ [CHR 0x0A]) emitted)"

subsection \<open>Properties of the rounding\<close>

text \<open>
  What the proofs below ask of the rounding where they ask anything: it is monotone, and a
  multiple of one half between -32 and 32 is its own rounding. Rounding doubles to the
  nearest has both properties. The rounding \<open>exact\<close> changes nothing; the arithmetic of
  doubles is exact wherever the operands and the exact result are doubles.
\<close>

definition rounding :: "(real \<Rightarrow> real) \<Rightarrow> bool" where
  "rounding rnd =
     (mono rnd \<and> (\<forall>k \<in> {- 64 .. 64 :: int}. rnd (of_int k / 2) = of_int k / 2))"

definition exact :: "real \<Rightarrow> real" where
  "exact x = x"

subsection \<open>Strings: whitespace and digits\<close>

text \<open>
  Python's \<^verbatim>\<open>str.strip()\<close>, which the loader of a cached transcript (line 39) and the
  writer of the cache (line 85) apply to a segment's text, and which the transcript reader of
  the converter applies to the text of an utterance. A character is a code point below 256;
  there the whitespace of Python is the codes 9 to 13, 28 to 32, 133 and 160, and the decimal
  digits are the codes 48 to 57.
\<close>

definition isspace :: "char \<Rightarrow> bool" where
  "isspace ch =
     (let n = (of_char ch :: nat)
      in (9 \<le> n \<and> n \<le> 13) \<or> (28 \<le> n \<and> n \<le> 32) \<or> n = 133 \<or> n = 160)"

definition isdigit :: "char \<Rightarrow> bool" where
  "isdigit ch = (let n = (of_char ch :: nat) in 48 \<le> n \<and> n \<le> 57)"

definition strip :: "string \<Rightarrow> string" where
  "strip s = rev (dropWhile isspace (rev (dropWhile isspace s)))"

section \<open>The transcript reader\<close>

text \<open>
  \<^verbatim>\<open>parse_conversation_file\<close> (the same in both modules) runs
  \<^verbatim>\<open>re.findall(r'(Speaker \d+):\s*(.*?)(?=Speaker \d+:|$)', content, re.DOTALL)\<close>
  on the text of the file.

  \<^verbatim>\<open>speaker_header\<close> is the match of \<^verbatim>\<open>(Speaker \d+):\<close> at the start of a text: the
  speaker and the rest behind the colon. The digits are the longest run, since a shorter run
  would have to be followed by a colon that is a digit.
\<close>

definition speaker_header :: "string \<Rightarrow> (string \<times> string) option" where
  "speaker_header s =
     (if take 8 s = ''Speaker '' then
        (let digits = takeWhile isdigit (drop 8 s);
             rest = dropWhile isdigit (drop 8 s)
         in if digits \<noteq> [] \<and> take 1 rest = '':'' then Some (''Speaker '' @ digits, drop 1 rest)
            else None)
      else None)"

text \<open>
  The lazy group \<^verbatim>\<open>(.*?)\<close> with its lookahead: it takes characters, newlines too, up to
  the first place where a speaker header starts or where \<^verbatim>\<open>$\<close> matches, which is the end of
  the text and the place before a newline that ends the text. The result is the group and
  what is left of the text.
\<close>

fun lazy_text :: "string \<Rightarrow> string \<times> string" where
  "lazy_text [] = ([], [])"
| "lazy_text (ch # cs) =
     (if speaker_header (ch # cs) \<noteq> None \<or> (ch = CHR 0x0A \<and> cs = []) then ([], ch # cs)
      else (case lazy_text cs of (t, left) \<Rightarrow> (ch # t, left)))"

text \<open>
  \<^verbatim>\<open>findall\<close> looks for the next match from left to right and goes on behind it. The first
  argument counts the characters of a match that are still to be passed over. \<^verbatim>\<open>\s*\<close>
  takes all the whitespace there is: the lazy group behind it can always be completed.
\<close>

fun findall :: "nat \<Rightarrow> string \<Rightarrow> (string \<times> string) list" where
  "findall skip [] = []"
| "findall (Suc skip) (ch # cs) = findall skip cs"
| "findall 0 (ch # cs) =
     (case speaker_header (ch # cs) of
        None \<Rightarrow> findall 0 cs
      | Some (sp, rest) \<Rightarrow>
          (case lazy_text (dropWhile isspace rest) of
             (t, left) \<Rightarrow> (sp, t) # findall (length cs - length left) cs))"

definition parse_conversation_file :: "string \<Rightarrow> utterance list" where
  "parse_conversation_file file_content =
     map (\<lambda>(sp, t). \<lparr>speaker = sp, utext = strip t\<rparr>)
       (filter (\<lambda>(sp, t). strip t \<noteq> []) (findall 0 file_content))"

text \<open>
  \<^verbatim>\<open>convert_file\<close> of \<^verbatim>\<open>preprocessing_data_3.py\<close> without its file handling: the utterances
  read, their groups, the messages and the windows.
\<close>

definition convert_file :: "converter \<Rightarrow> string \<Rightarrow> int \<Rightarrow> conversation list" where
  "convert_file c file_content window_size =
     (let utterances = parse_conversation_file file_content;
          grouped = group_consecutive_utterances3 c utterances;
          dialogue_pairs = create_dialogue_pairs grouped
      in create_sliding_window_conversations dialogue_pairs window_size)"

subsection \<open>What the aligner is measured against\<close>

text \<open>
  The overlap ratio and the midpoint distance as the code computes them, and the first
  position of a list at which a function is greatest (least).
\<close>

definition score :: "(real \<Rightarrow> real) \<Rightarrow> transcript_segment \<Rightarrow> speaker_segment \<Rightarrow> real" where
  "score rnd t s =
     rnd (rnd (min (t_end t) (end_sec s) - max (t_start t) (start_sec s)) /
          rnd (t_end t - t_start t))"

definition midpoint_distance ::
  "(real \<Rightarrow> real) \<Rightarrow> transcript_segment \<Rightarrow> speaker_segment \<Rightarrow> real" where
  "midpoint_distance rnd t s =
     \<bar>rnd (rnd (rnd (t_start t + t_end t) / 2) - rnd (rnd (start_sec s + end_sec s) / 2))\<bar>"

definition first_greatest :: "('a \<Rightarrow> real) \<Rightarrow> 'a list \<Rightarrow> nat \<Rightarrow> bool" where
  "first_greatest f xs i =
     (i < length xs \<and> (\<forall>j \<in> {0 ..< length xs}. f (xs ! j) \<le> f (xs ! i)) \<and>
      (\<forall>j \<in> {0 ..< i}. f (xs ! j) < f (xs ! i)))"

definition first_least :: "('a \<Rightarrow> real) \<Rightarrow> 'a list \<Rightarrow> nat \<Rightarrow> bool" where
  "first_least f xs i =
     (i < length xs \<and> (\<forall>j \<in> {0 ..< length xs}. f (xs ! i) \<le> f (xs ! j)) \<and>
      (\<forall>j \<in> {0 ..< i}. f (xs ! i) < f (xs ! j)))"

section \<open>Invariants of the grouping loop\<close>

text \<open>
  The lines a loop state holds, in order; a state with no open group holds no line outside
  \<^verbatim>\<open>grouped\<close>; the closed groups are non-empty, have a role, and neighbours (the current
  group included) differ in role; and the relation between the states of the two groupers.
\<close>

definition state_lines :: "'a group_scheme list \<times> 'a group_scheme \<Rightarrow> string list" where
  "state_lines st = concat (map content (fst st)) @ content (snd st)"

definition no_stray_lines :: "'a group_scheme list \<times> 'a group_scheme \<Rightarrow> bool" where
  "no_stray_lines st = (role (snd st) = None \<longrightarrow> content (snd st) = [])"

definition turns_ok :: "'a group_scheme list \<times> 'a group_scheme \<Rightarrow> bool" where
  "turns_ok st =
     ((\<forall>g \<in> set (fst st). role g \<noteq> None \<and> content g \<noteq> []) \<and>
      (role (snd st) \<noteq> None \<longrightarrow> content (snd st) \<noteq> []) \<and>
      (role (snd st) = None \<longrightarrow> fst st = []) \<and>
      distinct_adj (map role (fst st) @ [role (snd st)]))"

definition turn_list_ok :: "'a group_scheme list \<Rightarrow> bool" where
  "turn_list_ok gs =
     ((\<forall>g \<in> set gs. role g \<noteq> None \<and> content g \<noteq> []) \<and> distinct_adj (map role gs))"

definition sim :: "group list \<times> group \<Rightarrow> group3 list \<times> group3 \<Rightarrow> bool" where
  "sim s1 s3 = (list_all2 same_turn (fst s1) (fst s3) \<and> same_turn (snd s1) (snd s3))"

definition role_sender :: "role option \<Rightarrow> string" where
  "role_sender r = (if r = Some Client then ''human'' else ''gpt'')"

section \<open>Sample inputs\<close>

definition sample_converter :: converter where
  "sample_converter =
     setup_speaker_mapping init_converter [''Speaker 1'']
       [(''Partner A'', [''Speaker 2'']), (''Partner B'', [''Speaker 3''])] [''Speaker 9'']"

definition sample_utterances :: "utterance list" where
  "sample_utterances =
     [\<lparr>speaker = ''Speaker 1'', utext = ''hello''\<rparr>,
      \<lparr>speaker = ''Speaker 9'', utext = ''noise''\<rparr>,
      \<lparr>speaker = ''Speaker 2'', utext = ''a''\<rparr>,
      \<lparr>speaker = ''Speaker 2'', utext = ''b''\<rparr>,
      \<lparr>speaker = ''Speaker 7'', utext = ''x''\<rparr>,
      \<lparr>speaker = ''Speaker 3'', utext = ''c''\<rparr>,
      \<lparr>speaker = ''Speaker 1'', utext = ''ok''\<rparr>]"

definition sample_dialogue :: "message list" where
  "sample_dialogue =
     [\<lparr>sender = ''human'', msg_value = ''h0''\<rparr>, \<lparr>sender = ''gpt'', msg_value = ''g0''\<rparr>,
      \<lparr>sender = ''human'', msg_value = ''h1''\<rparr>, \<lparr>sender = ''gpt'', msg_value = ''g1''\<rparr>,
      \<lparr>sender = ''human'', msg_value = ''h2''\<rparr>, \<lparr>sender = ''gpt'', msg_value = ''g2''\<rparr>]"

definition sample_unbalanced :: "message list" where
  "sample_unbalanced =
     [\<lparr>sender = ''human'', msg_value = ''a''\<rparr>, \<lparr>sender = ''gpt'', msg_value = ''b''\<rparr>,
      \<lparr>sender = ''human'', msg_value = ''c''\<rparr>, \<lparr>sender = ''human'', msg_value = ''d''\<rparr>,
      \<lparr>sender = ''gpt'', msg_value = ''e''\<rparr>]"

text \<open>The test \<^verbatim>\<open>distance < min_distance\<close> of the fallback loop.\<close>

definition below :: "real option \<Rightarrow> real \<Rightarrow> bool" where
  "below min_distance d = (case min_distance of None \<Rightarrow> True | Some m \<Rightarrow> d < m)"

text \<open>
  Sample inputs of the aligner: the two segments of the end-to-end scenario with its two
  speaker turns, a segment after every speaker turn, a segment that ends before it starts,
  a segment of no duration, a segment whose text starts with a blank, and two speaker
  turns, the first one near and the second one far. But for the scenario, whose ratios are
  fifths, every number that the aligner computes from them is a multiple of one half below
  32, so that the arithmetic of doubles is exact on them.
\<close>

definition scenario_transcript :: "transcript_segment list" where
  "scenario_transcript =
     [\<lparr>t_start = 0, t_end = 5, t_text = ''hi''\<rparr>,
      \<lparr>t_start = 5, t_end = 10, t_text = ''how are you''\<rparr>]"

definition scenario_speakers :: "speaker_segment list" where
  "scenario_speakers =
     [\<lparr>start_sec = 0, end_sec = 4, speaker_tag = ''A''\<rparr>,
      \<lparr>start_sec = 4, end_sec = 10, speaker_tag = ''B''\<rparr>]"

definition late_segment :: transcript_segment where
  "late_segment = \<lparr>t_start = 10, t_end = 12, t_text = ''bye''\<rparr>"

definition reversed_segment :: transcript_segment where
  "reversed_segment = \<lparr>t_start = 5, t_end = 3, t_text = ''x''\<rparr>"

definition empty_segment :: transcript_segment where
  "empty_segment = \<lparr>t_start = 3, t_end = 3, t_text = ''x''\<rparr>"

definition near_and_far :: "speaker_segment list" where
  "near_and_far =
     [\<lparr>start_sec = 7 / 2, end_sec = 9 / 2, speaker_tag = ''A''\<rparr>,
      \<lparr>start_sec = 10, end_sec = 20, speaker_tag = ''B''\<rparr>]"

definition padded_segment :: transcript_segment where
  "padded_segment = \<lparr>t_start = 0, t_end = 4, t_text = '' hi''\<rparr>"

text \<open>
  The converter of the end-to-end scenario, set up over the tags, as the scenario has it;
  and the scenario with the tags 1 and 2, with a converter set up over the labels that the
  aligner writes for them.
\<close>

definition claimed_profile :: converter where
  "claimed_profile = setup_speaker_mapping init_converter [''A''] [(''Partner A'', [''B''])] []"

definition numeric_speakers :: "speaker_segment list" where
  "numeric_speakers =
     [\<lparr>start_sec = 0, end_sec = 4, speaker_tag = ''1''\<rparr>,
      \<lparr>start_sec = 4, end_sec = 10, speaker_tag = ''2''\<rparr>]"

definition numeric_profile :: converter where
  "numeric_profile =
     setup_speaker_mapping init_converter [''Speaker 1''] [(''Partner A'', [''Speaker 2''])] []"

section \<open>The grouper: what a step does\<close>

lemma dropped_iff: "dropped c u \<longleftrightarrow> determine_role c (speaker u) = None"
  by (auto simp: dropped_def determine_role_def)

lemma determine_role_Client:
  "determine_role c sp = Some Client \<Longrightarrow> \<exists>p. speaker_mapping c sp = Some p"
  by (auto simp: determine_role_def split: if_splits)

lemma determine_role_Therapist:
  "determine_role c sp = Some Therapist \<longleftrightarrow> sp \<notin> excluded_speakers c \<and> sp \<in> therapist_speakers c"
  by (auto simp: determine_role_def split: if_splits)

lemma determine_role_Client_not_therapist:
  "determine_role c sp = Some Client \<Longrightarrow> sp \<notin> therapist_speakers c"
  by (auto simp: determine_role_def split: if_splits)

lemma group_step_dropped: "dropped c u \<Longrightarrow> group_step c st u = st"
  by (simp add: dropped_iff group_step_def)

lemma group_step3_dropped: "dropped c u \<Longrightarrow> group_step3 c st u = st"
  by (simp add: dropped_iff group_step3_def)

lemma foldl_group_step_filter:
  "foldl (group_step c) st (filter (\<lambda>u. \<not> dropped c u) us) = foldl (group_step c) st us"
  by (induction us arbitrary: st) (simp_all add: group_step_dropped)

lemma foldl_group_step3_filter:
  "foldl (group_step3 c) st (filter (\<lambda>u. \<not> dropped c u) us) = foldl (group_step3 c) st us"
  by (induction us arbitrary: st) (simp_all add: group_step3_dropped)

lemma group_filter:
  "group_consecutive_utterances c (filter (\<lambda>u. \<not> dropped c u) us) = group_consecutive_utterances c us"
proof (cases "filter (\<lambda>u. \<not> dropped c u) us = []")
  case True
  have "foldl (group_step c) st us = foldl (group_step c) st []" for st
    using foldl_group_step_filter [of c st us] True by simp
  then show ?thesis
    using True by (simp add: group_consecutive_utterances_def close_group_def)
next
  case False
  then have "us \<noteq> []" by auto
  with False show ?thesis
    by (simp add: group_consecutive_utterances_def foldl_group_step_filter)
qed

lemma group3_filter:
  "group_consecutive_utterances3 c (filter (\<lambda>u. \<not> dropped c u) us) = group_consecutive_utterances3 c us"
proof (cases "filter (\<lambda>u. \<not> dropped c u) us = []")
  case True
  have "foldl (group_step3 c) st us = foldl (group_step3 c) st []" for st
    using foldl_group_step3_filter [of c st us] True by simp
  then show ?thesis
    using True by (simp add: group_consecutive_utterances3_def close_group3_def)
next
  case False
  then have "us \<noteq> []" by auto
  with False show ?thesis
    by (simp add: group_consecutive_utterances3_def foldl_group_step3_filter)
qed

lemma open_group_lines:
  "no_stray_lines st \<Longrightarrow> state_lines (open_group r st) = state_lines st"
  by (cases st) (auto simp: open_group_def state_lines_def no_stray_lines_def)

lemma open_group3_lines:
  "no_stray_lines st \<Longrightarrow> state_lines (open_group3 r st) = state_lines st"
  by (cases st) (auto simp: open_group3_def state_lines_def no_stray_lines_def)

lemma open_group_role: "role (snd (open_group r st)) = Some r"
  by (cases st) (auto simp: open_group_def)

lemma open_group3_role: "role (snd (open_group3 r st)) = Some r"
  by (cases st) (auto simp: open_group3_def)

lemma append_line_lines: "state_lines (append_line l st) = state_lines st @ [l]"
  by (cases st) (auto simp: append_line_def state_lines_def)

lemma append_line3_lines: "state_lines (append_line3 l st) = state_lines st @ [l]"
  by (cases st) (auto simp: append_line3_def state_lines_def)

lemma append_line_role: "role (snd (append_line l st)) = role (snd st)"
  by (cases st) (auto simp: append_line_def)

lemma append_line3_role: "role (snd (append_line3 l st)) = role (snd st)"
  by (cases st) (auto simp: append_line3_def)

lemma append_client3_role: "role (snd (append_client3 p t st)) = role (snd st)"
  by (cases st) (auto simp: append_client3_def)

lemma append_client3_lines:
  "\<exists>l. (l = t \<or> l = prefixed p t) \<and> state_lines (append_client3 p t st) = state_lines st @ [l]"
  by (cases st) (auto simp: append_client3_def state_lines_def)

lemma group_step_Therapist:
  "determine_role c (speaker u) = Some Therapist \<Longrightarrow>
   group_step c st u = append_line (utext u) (open_group Therapist st)"
  by (simp add: group_step_def)

lemma group_step_Client:
  "determine_role c (speaker u) = Some Client \<Longrightarrow> speaker_mapping c (speaker u) = Some p \<Longrightarrow>
   group_step c st u = append_line (prefixed p (utext u)) (open_group Client st)"
  by (simp add: group_step_def)

lemma group_step3_Therapist:
  "determine_role c (speaker u) = Some Therapist \<Longrightarrow>
   group_step3 c st u = append_line3 (utext u) (open_group3 Therapist st)"
  by (simp add: group_step3_def)

lemma group_step3_Client:
  "determine_role c (speaker u) = Some Client \<Longrightarrow> speaker_mapping c (speaker u) = Some p \<Longrightarrow>
   group_step3 c st u = append_client3 p (utext u) (open_group3 Client st)"
  by (simp add: group_step3_def)

lemma kept_cases:
  assumes "\<not> dropped c u"
  obtains (Therapist) "determine_role c (speaker u) = Some Therapist"
      "speaker u \<in> therapist_speakers c"
    | (Client) p where "determine_role c (speaker u) = Some Client"
      "speaker_mapping c (speaker u) = Some p" "speaker u \<notin> therapist_speakers c"
proof (cases "determine_role c (speaker u)")
  case None
  with assms show ?thesis by (simp add: dropped_iff)
next
  case (Some r)
  show ?thesis
  proof (cases r)
    case Therapist
    with Some that(1) show ?thesis by (simp add: determine_role_Therapist)
  next
    case Client
    with Some that(2) show ?thesis
      using determine_role_Client determine_role_Client_not_therapist by blast
  qed
qed

lemma group_step_lines:
  assumes "no_stray_lines st" and "\<not> dropped c u"
  shows "no_stray_lines (group_step c st u) \<and>
         (\<exists>l. carries c u l \<and> state_lines (group_step c st u) = state_lines st @ [l])"
  using assms(2)
proof (cases rule: kept_cases)
  case Therapist
  then show ?thesis
    using assms(1)
    by (simp add: group_step_Therapist no_stray_lines_def append_line_role open_group_role
        append_line_lines open_group_lines carries_def)
next
  case (Client p)
  then show ?thesis
    using assms(1)
    by (simp add: group_step_Client no_stray_lines_def append_line_role open_group_role
        append_line_lines open_group_lines carries_def)
qed

lemma group_step3_lines:
  assumes "no_stray_lines st" and "\<not> dropped c u"
  shows "no_stray_lines (group_step3 c st u) \<and>
         (\<exists>l. carries c u l \<and> state_lines (group_step3 c st u) = state_lines st @ [l])"
  using assms(2)
proof (cases rule: kept_cases)
  case Therapist
  then show ?thesis
    using assms(1)
    by (simp add: group_step3_Therapist no_stray_lines_def append_line3_role open_group3_role
        append_line3_lines open_group3_lines carries_def)
next
  case (Client p)
  obtain l where l: "l = utext u \<or> l = prefixed p (utext u)"
    "state_lines (append_client3 p (utext u) (open_group3 Client st)) =
       state_lines (open_group3 Client st) @ [l]"
    using append_client3_lines by blast
  have "carries c u l" using l(1) Client by (auto simp: carries_def)
  moreover have "state_lines (group_step3 c st u) = state_lines st @ [l]"
    using Client l(2) assms(1) by (simp add: group_step3_Client open_group3_lines)
  moreover have "no_stray_lines (group_step3 c st u)"
    using Client
    by (simp add: group_step3_Client no_stray_lines_def append_client3_role open_group3_role)
  ultimately show ?thesis by blast
qed

lemma foldl_group_step_lines:
  "no_stray_lines st \<Longrightarrow>
   no_stray_lines (foldl (group_step c) st us) \<and>
   (\<exists>ls. list_all2 (carries c) (filter (\<lambda>u. \<not> dropped c u) us) ls \<and>
         state_lines (foldl (group_step c) st us) = state_lines st @ ls)"
proof (induction us arbitrary: st)
  case Nil
  then show ?case by simp
next
  case (Cons u us)
  show ?case
  proof (cases "dropped c u")
    case True
    then show ?thesis using Cons by (simp add: group_step_dropped)
  next
    case False
    from group_step_lines [OF Cons.prems False]
    obtain l where l: "no_stray_lines (group_step c st u)" "carries c u l"
      "state_lines (group_step c st u) = state_lines st @ [l]" by blast
    from Cons.IH [OF l(1)]
    obtain ls where ls: "no_stray_lines (foldl (group_step c) (group_step c st u) us)"
      "list_all2 (carries c) (filter (\<lambda>u. \<not> dropped c u) us) ls"
      "state_lines (foldl (group_step c) (group_step c st u) us) =
         state_lines (group_step c st u) @ ls" by blast
    have "list_all2 (carries c) (filter (\<lambda>u. \<not> dropped c u) (u # us)) (l # ls)"
      using False l(2) ls(2) by simp
    moreover have "state_lines (foldl (group_step c) st (u # us)) = state_lines st @ (l # ls)"
      using ls(3) l(3) by simp
    ultimately show ?thesis using ls(1) by (metis foldl_Cons)
  qed
qed

lemma foldl_group_step3_lines:
  "no_stray_lines st \<Longrightarrow>
   no_stray_lines (foldl (group_step3 c) st us) \<and>
   (\<exists>ls. list_all2 (carries c) (filter (\<lambda>u. \<not> dropped c u) us) ls \<and>
         state_lines (foldl (group_step3 c) st us) = state_lines st @ ls)"
proof (induction us arbitrary: st)
  case Nil
  then show ?case by simp
next
  case (Cons u us)
  show ?case
  proof (cases "dropped c u")
    case True
    then show ?thesis using Cons by (simp add: group_step3_dropped)
  next
    case False
    from group_step3_lines [OF Cons.prems False]
    obtain l where l: "no_stray_lines (group_step3 c st u)" "carries c u l"
      "state_lines (group_step3 c st u) = state_lines st @ [l]" by blast
    from Cons.IH [OF l(1)]
    obtain ls where ls: "no_stray_lines (foldl (group_step3 c) (group_step3 c st u) us)"
      "list_all2 (carries c) (filter (\<lambda>u. \<not> dropped c u) us) ls"
      "state_lines (foldl (group_step3 c) (group_step3 c st u) us) =
         state_lines (group_step3 c st u) @ ls" by blast
    have "list_all2 (carries c) (filter (\<lambda>u. \<not> dropped c u) (u # us)) (l # ls)"
      using False l(2) ls(2) by simp
    moreover have "state_lines (foldl (group_step3 c) st (u # us)) = state_lines st @ (l # ls)"
      using ls(3) l(3) by simp
    ultimately show ?thesis using ls(1) by (metis foldl_Cons)
  qed
qed

lemma close_group_lines:
  "no_stray_lines st \<Longrightarrow> concat (map content (close_group st)) = state_lines st"
  by (cases st) (auto simp: close_group_def state_lines_def no_stray_lines_def)

lemma close_group3_lines:
  "no_stray_lines st \<Longrightarrow> concat (map content (close_group3 st)) = state_lines st"
  by (cases st) (auto simp: close_group3_def state_lines_def no_stray_lines_def)

lemma group_lines:
  "list_all2 (carries c) (filter (\<lambda>u. \<not> dropped c u) us)
     (concat (map content (group_consecutive_utterances c us)))"
proof (cases "us = []")
  case True
  then show ?thesis by (simp add: group_consecutive_utterances_def)
next
  case False
  let ?s0 = "([], \<lparr>role = None, content = []\<rparr>) :: group list \<times> group"
  have s0: "no_stray_lines ?s0" by (simp add: no_stray_lines_def)
  from foldl_group_step_lines [OF s0, of c us]
  obtain ls where ls: "no_stray_lines (foldl (group_step c) ?s0 us)"
    "list_all2 (carries c) (filter (\<lambda>u. \<not> dropped c u) us) ls"
    "state_lines (foldl (group_step c) ?s0 us) = state_lines ?s0 @ ls" by blast
  have "concat (map content (group_consecutive_utterances c us)) = ls"
    using False ls(1,3) by (simp add: group_consecutive_utterances_def close_group_lines state_lines_def)
  with ls(2) show ?thesis by simp
qed

lemma group3_lines:
  "list_all2 (carries c) (filter (\<lambda>u. \<not> dropped c u) us)
     (concat (map content (group_consecutive_utterances3 c us)))"
proof (cases "us = []")
  case True
  then show ?thesis by (simp add: group_consecutive_utterances3_def)
next
  case False
  let ?s0 = "([], \<lparr>role = None, content = [], current_speaker = None\<rparr>) :: group3 list \<times> group3"
  have s0: "no_stray_lines ?s0" by (simp add: no_stray_lines_def)
  from foldl_group_step3_lines [OF s0, of c us]
  obtain ls where ls: "no_stray_lines (foldl (group_step3 c) ?s0 us)"
    "list_all2 (carries c) (filter (\<lambda>u. \<not> dropped c u) us) ls"
    "state_lines (foldl (group_step3 c) ?s0 us) = state_lines ?s0 @ ls" by blast
  have "concat (map content (group_consecutive_utterances3 c us)) = ls"
    using False ls(1,3) by (simp add: group_consecutive_utterances3_def close_group3_lines state_lines_def)
  with ls(2) show ?thesis by simp
qed

lemma turns_ok_open_append:
  assumes "turns_ok st"
  shows "turns_ok (append_line l (open_group r st))"
proof (cases st)
  case (Pair grouped cur)
  show ?thesis
  proof (cases "role cur = Some r")
    case True
    with assms Pair show ?thesis
      by (auto simp: turns_ok_def open_group_def append_line_def)
  next
    case False
    show ?thesis
    proof (cases "role cur")
      case None
      with assms Pair show ?thesis
        by (auto simp: turns_ok_def open_group_def append_line_def distinct_adj_append_iff)
    next
      case (Some r')
      with False assms Pair show ?thesis
        by (auto simp: turns_ok_def open_group_def append_line_def distinct_adj_append_iff)
    qed
  qed
qed

lemma turns_ok_open_append3:
  assumes "turns_ok st"
  shows "turns_ok (append_line3 l (open_group3 r st))"
proof (cases st)
  case (Pair grouped cur)
  show ?thesis
  proof (cases "role cur = Some r")
    case True
    with assms Pair show ?thesis
      by (auto simp: turns_ok_def open_group3_def append_line3_def)
  next
    case False
    show ?thesis
    proof (cases "role cur")
      case None
      with assms Pair show ?thesis
        by (auto simp: turns_ok_def open_group3_def append_line3_def distinct_adj_append_iff)
    next
      case (Some r')
      with False assms Pair show ?thesis
        by (auto simp: turns_ok_def open_group3_def append_line3_def distinct_adj_append_iff)
    qed
  qed
qed

lemma turns_ok_open_client3:
  assumes "turns_ok st"
  shows "turns_ok (append_client3 p t (open_group3 r st))"
proof (cases st)
  case (Pair grouped cur)
  show ?thesis
  proof (cases "role cur = Some r")
    case True
    with assms Pair show ?thesis
      by (auto simp: turns_ok_def open_group3_def append_client3_def)
  next
    case False
    show ?thesis
    proof (cases "role cur")
      case None
      with assms Pair show ?thesis
        by (auto simp: turns_ok_def open_group3_def append_client3_def distinct_adj_append_iff)
    next
      case (Some r')
      with False assms Pair show ?thesis
        by (auto simp: turns_ok_def open_group3_def append_client3_def distinct_adj_append_iff)
    qed
  qed
qed

lemma turns_ok_group_step: "turns_ok st \<Longrightarrow> turns_ok (group_step c st u)"
  by (cases "dropped c u")
    (auto simp: group_step_dropped group_step_Therapist group_step_Client turns_ok_open_append
      elim!: kept_cases)

lemma turns_ok_group_step3: "turns_ok st \<Longrightarrow> turns_ok (group_step3 c st u)"
  by (cases "dropped c u")
    (auto simp: group_step3_dropped group_step3_Therapist group_step3_Client
      turns_ok_open_append3 turns_ok_open_client3 elim!: kept_cases)

lemma turns_ok_foldl: "turns_ok st \<Longrightarrow> turns_ok (foldl (group_step c) st us)"
  by (induction us arbitrary: st) (simp_all add: turns_ok_group_step)

lemma turns_ok_foldl3: "turns_ok st \<Longrightarrow> turns_ok (foldl (group_step3 c) st us)"
  by (induction us arbitrary: st) (simp_all add: turns_ok_group_step3)

lemma turns_ok_close: "turns_ok st \<Longrightarrow> turn_list_ok (close_group st)"
  by (cases st) (auto simp: turns_ok_def turn_list_ok_def close_group_def distinct_adj_append_iff)

lemma turns_ok_close3: "turns_ok st \<Longrightarrow> turn_list_ok (close_group3 st)"
  by (cases st) (auto simp: turns_ok_def turn_list_ok_def close_group3_def distinct_adj_append_iff)

lemma group_turn_list_ok: "turn_list_ok (group_consecutive_utterances c us)"
proof (cases "us = []")
  case True
  then show ?thesis by (simp add: group_consecutive_utterances_def turn_list_ok_def)
next
  case False
  have "turns_ok (([], \<lparr>role = None, content = []\<rparr>) :: group list \<times> group)"
    by (simp add: turns_ok_def)
  then show ?thesis
    using False by (simp add: group_consecutive_utterances_def turns_ok_close turns_ok_foldl)
qed

lemma group3_turn_list_ok: "turn_list_ok (group_consecutive_utterances3 c us)"
proof (cases "us = []")
  case True
  then show ?thesis by (simp add: group_consecutive_utterances3_def turn_list_ok_def)
next
  case False
  have "turns_ok (([], \<lparr>role = None, content = [], current_speaker = None\<rparr>)
          :: group3 list \<times> group3)"
    by (simp add: turns_ok_def)
  then show ?thesis
    using False by (simp add: group_consecutive_utterances3_def turns_ok_close3 turns_ok_foldl3)
qed

lemma senders_training: "map sender (convert_to_training_format gs) = map role_sender (map role gs)"
  by (simp add: convert_to_training_format_def role_sender_def)

lemma senders_pairs: "map sender (create_dialogue_pairs gs) = map role_sender (map role gs)"
  by (simp add: create_dialogue_pairs_def role_sender_def)

lemma role_sender_alternates:
  assumes "turn_list_ok gs"
  shows "distinct_adj (map role_sender (map role gs)) \<and>
         set (map role_sender (map role gs)) \<subseteq> {''human'', ''gpt''}"
proof -
  have "inj_on role_sender (set (map role gs))"
  proof (rule inj_onI)
    fix x y assume x: "x \<in> set (map role gs)" and y: "y \<in> set (map role gs)"
      and e: "role_sender x = role_sender y"
    have "None \<notin> set (map role gs)" using assms by (auto simp: turn_list_ok_def)
    with x y have "x \<noteq> None" "y \<noteq> None" by metis+
    then obtain a b where "x = Some a" "y = Some b" by auto
    with e show "x = y"
      by (cases a; cases b) (simp_all add: role_sender_def)
  qed
  moreover have "distinct_adj (map role gs)" using assms by (simp add: turn_list_ok_def)
  ultimately have "distinct_adj (map role_sender (map role gs))"
    using distinct_adj_map_iff [of role_sender "map role gs"] by blast
  moreover have "set (map role_sender (map role gs)) \<subseteq> {''human'', ''gpt''}"
    by (auto simp: role_sender_def)
  ultimately show ?thesis by blast
qed

lemma same_turn_empty:
  "same_turn \<lparr>role = r, content = []\<rparr> \<lparr>role = r, content = [], current_speaker = x\<rparr>"
  by (simp add: same_turn_def)

lemma sim_open: "sim s1 s3 \<Longrightarrow> sim (open_group r s1) (open_group3 r s3)"
  by (cases s1; cases s3)
    (auto simp: sim_def open_group_def open_group3_def same_turn_def list_all2_appendI)

lemma sim_therapist:
  assumes "sim s1 s3" and "role (snd s1) = Some Therapist"
  shows "sim (append_line l s1) (append_line3 l s3)"
  using assms by (cases s1; cases s3) (auto simp: sim_def append_line_def append_line3_def same_turn_def)

lemma differ_by_prefix_snoc:
  "list_all2 differ_by_prefix xs ys \<Longrightarrow> l3 = prefixed p t \<or> l3 = t \<Longrightarrow>
   list_all2 differ_by_prefix (xs @ [prefixed p t]) (ys @ [l3])"
  by (rule list_all2_appendI) (auto simp: differ_by_prefix_def)

lemma sim_client:
  assumes "sim s1 s3" and "role (snd s1) = Some Client"
  shows "sim (append_line (prefixed p t) s1) (append_client3 p t s3)"
  using assms
  by (cases s1; cases s3)
    (auto simp: sim_def append_line_def append_client3_def same_turn_def differ_by_prefix_snoc)

lemma sim_step: "sim s1 s3 \<Longrightarrow> sim (group_step c s1 u) (group_step3 c s3 u)"
proof (cases "dropped c u")
  case True
  assume "sim s1 s3"
  with True show ?thesis by (simp add: group_step_dropped group_step3_dropped)
next
  case False
  assume s: "sim s1 s3"
  from False show ?thesis
  proof (cases rule: kept_cases)
    case Therapist
    then show ?thesis
      using sim_therapist [OF sim_open [OF s, of Therapist]]
      by (simp add: group_step_Therapist group_step3_Therapist open_group_role)
  next
    case (Client p)
    then show ?thesis
      using sim_client [OF sim_open [OF s, of Client]]
      by (simp add: group_step_Client group_step3_Client open_group_role)
  qed
qed

lemma sim_foldl: "sim s1 s3 \<Longrightarrow> sim (foldl (group_step c) s1 us) (foldl (group_step3 c) s3 us)"
  by (induction us arbitrary: s1 s3) (simp_all add: sim_step)

lemma sim_close: "sim s1 s3 \<Longrightarrow> list_all2 same_turn (close_group s1) (close_group3 s3)"
  by (cases s1; cases s3)
    (auto simp: sim_def close_group_def close_group3_def same_turn_def list_all2_appendI)

subsection \<open>The groupers on the sample input\<close>

lemma sample_converter_simps:
  "speaker_mapping sample_converter =
     [''Speaker 2'' \<mapsto> ''Partner A'', ''Speaker 3'' \<mapsto> ''Partner B'', ''Speaker 1'' \<mapsto> ''therapist'']"
  "excluded_speakers sample_converter = {''Speaker 9''}"
  "therapist_speakers sample_converter = {''Speaker 1''}"
  by (simp_all add: sample_converter_def setup_speaker_mapping_def init_converter_def)

lemmas grouper_defs =
  group_consecutive_utterances_def group_consecutive_utterances3_def
  group_step_def group_step3_def determine_role_def open_group_def open_group3_def
  append_line_def append_line3_def append_client3_def close_group_def close_group3_def
  prefixed_def sample_converter_simps sample_utterances_def

lemma sample_groups:
  "group_consecutive_utterances sample_converter sample_utterances =
     [\<lparr>role = Some Therapist, content = [''hello'']\<rparr>,
      \<lparr>role = Some Client, content = [''[Partner A]: a'', ''[Partner A]: b'', ''[Partner B]: c'']\<rparr>,
      \<lparr>role = Some Therapist, content = [''ok'']\<rparr>]"
  by (simp add: grouper_defs)

lemma sample_groups3:
  "group_consecutive_utterances3 sample_converter sample_utterances =
     [\<lparr>role = Some Therapist, content = [''hello''], current_speaker = None\<rparr>,
      \<lparr>role = Some Client, content = [''[Partner A]: a'', ''b'', ''[Partner B]: c''],
        current_speaker = Some ''Partner B''\<rparr>,
      \<lparr>role = Some Therapist, content = [''ok''], current_speaker = None\<rparr>]"
  by (simp add: grouper_defs)

lemma sample_kept:
  "filter (\<lambda>u. \<not> dropped sample_converter u) sample_utterances =
     [\<lparr>speaker = ''Speaker 1'', utext = ''hello''\<rparr>,
      \<lparr>speaker = ''Speaker 2'', utext = ''a''\<rparr>,
      \<lparr>speaker = ''Speaker 2'', utext = ''b''\<rparr>,
      \<lparr>speaker = ''Speaker 3'', utext = ''c''\<rparr>,
      \<lparr>speaker = ''Speaker 1'', utext = ''ok''\<rparr>]"
  by (simp add: dropped_def sample_converter_simps sample_utterances_def)

section \<open>The grouper: claims\<close>

text \<open>
  Claim C5. No line of an emitted group comes from an utterance whose speaker is excluded or
  unmapped: such an utterance leaves the loop state as it is, and both groupers return what
  they return on the input without these utterances.
\<close>

theorem dropped_utterances_leave_no_trace:
  "(dropped c u \<longrightarrow> group_step c st u = st \<and> group_step3 c st3 u = st3) \<and>
   group_consecutive_utterances c us =
     group_consecutive_utterances c (filter (\<lambda>u. \<not> dropped c u) us) \<and>
   group_consecutive_utterances3 c us =
     group_consecutive_utterances3 c (filter (\<lambda>u. \<not> dropped c u) us)"
  by (simp add: group_step_dropped group_step3_dropped group_filter group3_filter)

theorem dropped_utterances_leave_no_trace_witness:
  "dropped sample_converter \<lparr>speaker = ''Speaker 9'', utext = ''noise''\<rparr> \<and>
   dropped sample_converter \<lparr>speaker = ''Speaker 7'', utext = ''x''\<rparr> \<and>
   group_step sample_converter ([], \<lparr>role = Some Client, content = [''[Partner A]: a'']\<rparr>)
     \<lparr>speaker = ''Speaker 7'', utext = ''x''\<rparr> =
     ([], \<lparr>role = Some Client, content = [''[Partner A]: a'']\<rparr>) \<and>
   group_consecutive_utterances sample_converter
     (filter (\<lambda>u. \<not> dropped sample_converter u) sample_utterances) =
     [\<lparr>role = Some Therapist, content = [''hello'']\<rparr>,
      \<lparr>role = Some Client, content = [''[Partner A]: a'', ''[Partner A]: b'', ''[Partner B]: c'']\<rparr>,
      \<lparr>role = Some Therapist, content = [''ok'']\<rparr>]"
  using dropped_utterances_leave_no_trace [of sample_converter
      "\<lparr>speaker = ''Speaker 7'', utext = ''x''\<rparr>"
      "([], \<lparr>role = Some Client, content = [''[Partner A]: a'']\<rparr>)"
      "([], \<lparr>role = Some Client, content = [''[Partner A]: a''],
            current_speaker = Some ''Partner A''\<rparr>)"
      sample_utterances]
  by (simp add: sample_groups) (simp add: dropped_def sample_converter_simps)

text \<open>
  Claim C6. The lines of all emitted groups, concatenated in emission order, are one line
  per utterance that is neither excluded nor unmapped, in the order of the input, and each
  line carries the text of its utterance (behind the partner prefix or behind nothing).
\<close>

theorem grouping_keeps_every_mapped_utterance:
  "list_all2 (carries c) (filter (\<lambda>u. \<not> dropped c u) us)
     (concat (map content (group_consecutive_utterances c us))) \<and>
   list_all2 (carries c) (filter (\<lambda>u. \<not> dropped c u) us)
     (concat (map content (group_consecutive_utterances3 c us)))"
  by (simp add: group_lines group3_lines)

theorem grouping_keeps_every_mapped_utterance_witness:
  "list_all2 (carries sample_converter)
     [\<lparr>speaker = ''Speaker 1'', utext = ''hello''\<rparr>,
      \<lparr>speaker = ''Speaker 2'', utext = ''a''\<rparr>,
      \<lparr>speaker = ''Speaker 2'', utext = ''b''\<rparr>,
      \<lparr>speaker = ''Speaker 3'', utext = ''c''\<rparr>,
      \<lparr>speaker = ''Speaker 1'', utext = ''ok''\<rparr>]
     [''hello'', ''[Partner A]: a'', ''[Partner A]: b'', ''[Partner B]: c'', ''ok''] \<and>
   list_all2 (carries sample_converter)
     [\<lparr>speaker = ''Speaker 1'', utext = ''hello''\<rparr>,
      \<lparr>speaker = ''Speaker 2'', utext = ''a''\<rparr>,
      \<lparr>speaker = ''Speaker 2'', utext = ''b''\<rparr>,
      \<lparr>speaker = ''Speaker 3'', utext = ''c''\<rparr>,
      \<lparr>speaker = ''Speaker 1'', utext = ''ok''\<rparr>]
     [''hello'', ''[Partner A]: a'', ''b'', ''[Partner B]: c'', ''ok'']"
  using grouping_keeps_every_mapped_utterance [of sample_converter sample_utterances]
  by (simp add: sample_groups sample_groups3 sample_kept)

text \<open>
  Claim C9. Every emitted group has at least one line, two groups emitted one after the
  other differ in role, and so the messages derived from the groups alternate between
  \<^verbatim>\<open>human\<close> and \<^verbatim>\<open>gpt\<close>; for both groupers, each with the serializer of its module.
\<close>

theorem turns_alternate:
  "(\<forall>g \<in> set (group_consecutive_utterances c us). content g \<noteq> []) \<and>
   distinct_adj (map role (group_consecutive_utterances c us)) \<and>
   distinct_adj (map sender (convert_to_training_format (group_consecutive_utterances c us))) \<and>
   set (map sender (convert_to_training_format (group_consecutive_utterances c us)))
     \<subseteq> {''human'', ''gpt''} \<and>
   (\<forall>g \<in> set (group_consecutive_utterances3 c us). content g \<noteq> []) \<and>
   distinct_adj (map role (group_consecutive_utterances3 c us)) \<and>
   distinct_adj (map sender (create_dialogue_pairs (group_consecutive_utterances3 c us))) \<and>
   set (map sender (create_dialogue_pairs (group_consecutive_utterances3 c us)))
     \<subseteq> {''human'', ''gpt''}"
proof -
  have a: "turn_list_ok (group_consecutive_utterances c us)" by (rule group_turn_list_ok)
  have b: "turn_list_ok (group_consecutive_utterances3 c us)" by (rule group3_turn_list_ok)
  show ?thesis
    using a b role_sender_alternates [OF a] role_sender_alternates [OF b]
    unfolding senders_training senders_pairs
    by (simp add: turn_list_ok_def)
qed

theorem turns_alternate_witness:
  "map content (group_consecutive_utterances3 sample_converter sample_utterances) =
     [[''hello''], [''[Partner A]: a'', ''b'', ''[Partner B]: c''], [''ok'']] \<and>
   distinct_adj [Some Therapist, Some Client, Some Therapist] \<and>
   map sender (convert_to_training_format
     (group_consecutive_utterances sample_converter sample_utterances)) =
     [''gpt'', ''human'', ''gpt''] \<and>
   map sender (create_dialogue_pairs
     (group_consecutive_utterances3 sample_converter sample_utterances)) =
     [''gpt'', ''human'', ''gpt'']"
  using turns_alternate [of sample_converter sample_utterances]
  by (simp add: sample_groups sample_groups3 convert_to_training_format_def
      create_dialogue_pairs_def)

text \<open>
  Claim C10. On every input the two groupers emit equally many groups, with the same roles
  and the same number of lines in each group; the groups of the therapist are the same, and
  a client line of \<^verbatim>\<open>preprocess_data.py\<close> is the line of \<^verbatim>\<open>preprocessing_data_3.py\<close> or that
  line behind a partner prefix.
\<close>

theorem groupers_agree:
  "list_all2 same_turn (group_consecutive_utterances c us) (group_consecutive_utterances3 c us)"
proof (cases "us = []")
  case True
  then show ?thesis
    by (simp add: group_consecutive_utterances_def group_consecutive_utterances3_def)
next
  case False
  have "sim ([], \<lparr>role = None, content = []\<rparr>)
          ([], \<lparr>role = None, content = [], current_speaker = None\<rparr>)"
    by (simp add: sim_def same_turn_empty)
  then show ?thesis
    using False
    by (simp add: group_consecutive_utterances_def group_consecutive_utterances3_def
        sim_close sim_foldl)
qed

theorem groupers_agree_witness:
  "list_all2 same_turn
     [\<lparr>role = Some Therapist, content = [''hello'']\<rparr>,
      \<lparr>role = Some Client, content = [''[Partner A]: a'', ''[Partner A]: b'', ''[Partner B]: c'']\<rparr>,
      \<lparr>role = Some Therapist, content = [''ok'']\<rparr>]
     [\<lparr>role = Some Therapist, content = [''hello''], current_speaker = None\<rparr>,
      \<lparr>role = Some Client, content = [''[Partner A]: a'', ''b'', ''[Partner B]: c''],
        current_speaker = Some ''Partner B''\<rparr>,
      \<lparr>role = Some Therapist, content = [''ok''], current_speaker = None\<rparr>]"
  using groupers_agree [of sample_converter sample_utterances]
  by (simp add: sample_groups sample_groups3)

section \<open>The windowizer: the scan and the windows\<close>

lemma find_valid_pairs_scan:
  "find_valid_pairs dp i acc = acc @ exchange_scan i (drop i dp)"
proof (induction dp i acc rule: find_valid_pairs.induct)
  case (1 dp i acc)
  show ?case
  proof (cases "i + 1 < length dp")
    case False
    then have "drop i dp = [] \<or> (\<exists>a. drop i dp = [a])"
      by (cases "drop i dp"; cases "tl (drop i dp)") (auto simp: drop_Suc dest: arg_cong [where f = length])
    then have "exchange_scan i (drop i dp) = []" by auto
    with False show ?thesis by (simp add: find_valid_pairs.simps [of dp i acc])
  next
    case True
    then have d: "drop i dp = dp ! i # drop (Suc i) dp"
      by (simp add: Cons_nth_drop_Suc)
    have d1: "drop (Suc i) dp = dp ! Suc i # drop (Suc (Suc i)) dp"
      using True by (simp add: Cons_nth_drop_Suc)
    show ?thesis
    proof (cases "sender (dp ! i) = ''human'' \<and> sender (dp ! (i + 1)) = ''gpt''")
      case t: True
      have "find_valid_pairs dp i acc = find_valid_pairs dp (i + 2) (acc @ [(i, i + 1)])"
        using True t by (auto simp: find_valid_pairs.simps [of dp i acc])
      also have "\<dots> = (acc @ [(i, i + 1)]) @ exchange_scan (i + 2) (drop (i + 2) dp)"
        using "1.IH"(1) True t by blast
      finally show ?thesis using t by (simp add: d d1)
    next
      case f: False
      have "find_valid_pairs dp i acc = find_valid_pairs dp (i + 1) acc"
        using True f by (auto simp: find_valid_pairs.simps [of dp i acc])
      also have "\<dots> = acc @ exchange_scan (i + 1) (drop (i + 1) dp)"
        using "1.IH"(2) True f by blast
      finally show ?thesis using f by (auto simp add: d d1)
    qed
  qed
qed

lemma exchange_scan_sound:
  "p \<in> set (exchange_scan i xs) \<Longrightarrow>
   snd p = fst p + 1 \<and> i \<le> fst p \<and> snd p < i + length xs \<and>
   sender (xs ! (fst p - i)) = ''human'' \<and> sender (xs ! (snd p - i)) = ''gpt''"
proof (induction i xs rule: exchange_scan.induct)
  case (1 i a b rest)
  show ?case
  proof (cases "sender a = ''human'' \<and> sender b = ''gpt''")
    case True
    show ?thesis
    proof (cases "p = (i, i + 1)")
      case t: True
      with True show ?thesis by simp
    next
      case False
      with True "1.prems" have "p \<in> set (exchange_scan (i + 2) rest)" by simp
      from "1.IH"(1) [OF True this]
      have ih: "snd p = fst p + 1" "i + 2 \<le> fst p" "snd p < i + 2 + length rest"
        "sender (rest ! (fst p - (i + 2))) = ''human''"
        "sender (rest ! (snd p - (i + 2))) = ''gpt''" by blast+
      from ih(2) obtain d where d: "fst p = i + 2 + d" using le_Suc_ex by blast
      with ih(1) have d': "snd p = i + 2 + (d + 1)" by simp
      show ?thesis using ih(3-5) unfolding d d' by simp
    qed
  next
    case False
    with "1.prems" have "p \<in> set (exchange_scan (i + 1) (b # rest))" by auto
    from "1.IH"(2) [OF False this]
    have ih: "snd p = fst p + 1" "i + 1 \<le> fst p" "snd p < i + 1 + length (b # rest)"
      "sender ((b # rest) ! (fst p - (i + 1))) = ''human''"
      "sender ((b # rest) ! (snd p - (i + 1))) = ''gpt''" by blast+
    from ih(2) obtain d where d: "fst p = i + 1 + d" using le_Suc_ex by blast
    with ih(1) have d': "snd p = i + 1 + (d + 1)" by simp
    show ?thesis using ih(3-5) unfolding d d' by simp
  qed
qed simp_all

lemma valid_pairs_sound:
  assumes "p \<in> set (find_valid_pairs dp 0 [])"
  shows "snd p = fst p + 1 \<and> snd p < length dp \<and>
         sender (dp ! fst p) = ''human'' \<and> sender (dp ! snd p) = ''gpt''"
  using exchange_scan_sound [of p 0 dp] assms by (auto simp: find_valid_pairs_scan)

lemma map_nth_upt_drop_take:
  "b \<le> length xs \<Longrightarrow> map (\<lambda>j. f (xs ! j)) [a ..< b] = drop a (take b (map f xs))"
proof -
  assume b: "b \<le> length xs"
  have "take b (map f xs) = map (\<lambda>j. f (xs ! j)) [0 ..< b]"
    using b by (intro nth_equalityI) auto
  then show ?thesis by (simp add: drop_map drop_upt)
qed

lemma window_messages_eq:
  assumes "pair_idx < length valid_pairs" and "1 \<le> window_size"
  shows "window_messages dp valid_pairs window_size pair_idx =
         concat (drop (Suc pair_idx - nat window_size)
                   (take (Suc pair_idx) (map (exchange_messages dp) valid_pairs)))"
proof -
  have s: "nat (max 0 (int pair_idx - window_size + 1)) = Suc pair_idx - nat window_size"
    using assms(2) by (simp add: max_def) linarith
  have e: "(\<lambda>window_pair_idx. case valid_pairs ! window_pair_idx of
              (human_idx, gpt_idx) \<Rightarrow> [dp ! human_idx, dp ! gpt_idx]) =
           (\<lambda>j. exchange_messages dp (valid_pairs ! j))"
    by (auto simp: exchange_messages_def split: prod.splits)
  show ?thesis
    using assms(1) map_nth_upt_drop_take [of "Suc pair_idx" valid_pairs "exchange_messages dp"
        "Suc pair_idx - nat window_size"]
    by (simp add: window_messages_def Let_def s e del: upt_Suc)
qed

lemma concat_exchanges_length:
  "length (concat (map (exchange_messages dp) ps)) = 2 * length ps"
  by (induction ps) (simp_all add: exchange_messages_def)

lemma windows_small: "length dp < 2 \<Longrightarrow> find_valid_pairs dp 0 [] = []"
  by (simp add: find_valid_pairs.simps [of dp 0 "[]"])

lemma windows_length:
  "length (create_sliding_window_conversations dp w) = length (find_valid_pairs dp 0 [])"
  by (simp add: create_sliding_window_conversations_def Let_def windows_small)

lemma windows_nth:
  assumes "k < length (find_valid_pairs dp 0 [])"
  shows "conversations (create_sliding_window_conversations dp w ! k) =
         window_messages dp (find_valid_pairs dp 0 []) w k"
proof -
  have "\<not> length dp < 2" using assms windows_small [of dp] by auto
  then show ?thesis
    using assms by (simp add: create_sliding_window_conversations_def Let_def)
qed

lemma sample_dialogue_pairs:
  "find_valid_pairs sample_dialogue 0 [] = [(0, 1), (2, 3), (4, 5)]"
  by (simp add: find_valid_pairs_scan sample_dialogue_def)

section \<open>The windowizer: claims\<close>

text \<open>
  Claim C3. For a window size of at least 1 there is exactly one window per valid exchange;
  the window of exchange \<open>k\<close> holds the exchanges \<open>max 0 (k - window_size + 1)\<close> to \<open>k\<close>
  in their order, that is, the last \<open>window_size\<close> of the first \<open>k + 1\<close> exchanges, each as
  its human message followed by its gpt message; so it has \<open>2 * min (k + 1) window_size\<close>
  messages. With window size 2 the window of exchange 2 is the exchanges 1 and 2, and the
  window of exchange 0 is exchange 0 alone.
\<close>

theorem windows_are_trailing_exchanges:
  assumes "1 \<le> window_size" and "k < length (find_valid_pairs dp 0 [])"
  shows "length (create_sliding_window_conversations dp window_size) =
           length (find_valid_pairs dp 0 []) \<and>
         conversations (create_sliding_window_conversations dp window_size ! k) =
           concat (drop (Suc k - nat window_size)
                     (take (Suc k) (map (exchange_messages dp) (find_valid_pairs dp 0 [])))) \<and>
         length (conversations (create_sliding_window_conversations dp window_size ! k)) =
           2 * min (Suc k) (nat window_size) \<and>
         sender (dp ! fst (find_valid_pairs dp 0 [] ! k)) = ''human'' \<and>
         sender (dp ! snd (find_valid_pairs dp 0 [] ! k)) = ''gpt'' \<and>
         (window_size = 2 \<and> k = 2 \<longrightarrow>
            conversations (create_sliding_window_conversations dp window_size ! 2) =
              exchange_messages dp (find_valid_pairs dp 0 [] ! 1) @
              exchange_messages dp (find_valid_pairs dp 0 [] ! 2) \<and>
            conversations (create_sliding_window_conversations dp window_size ! 0) =
              exchange_messages dp (find_valid_pairs dp 0 [] ! 0))"
proof -
  let ?vp = "find_valid_pairs dp 0 []"
  let ?cs = "create_sliding_window_conversations dp window_size"
  have w: "\<And>j. j < length ?vp \<Longrightarrow> conversations (?cs ! j) =
      concat (drop (Suc j - nat window_size) (take (Suc j) (map (exchange_messages dp) ?vp)))"
    using assms(1) by (simp add: windows_nth window_messages_eq)
  have "drop (Suc k - nat window_size) (take (Suc k) (map (exchange_messages dp) ?vp)) =
      map (exchange_messages dp) (drop (Suc k - nat window_size) (take (Suc k) ?vp))"
    by (simp add: drop_map take_map)
  moreover have "length (drop (Suc k - nat window_size) (take (Suc k) ?vp)) =
      min (Suc k) (nat window_size)"
    using assms by auto
  ultimately have l: "length (conversations (?cs ! k)) = 2 * min (Suc k) (nat window_size)"
    by (simp only: w [OF assms(2)] concat_exchanges_length)
  have s: "sender (dp ! fst (?vp ! k)) = ''human'' \<and> sender (dp ! snd (?vp ! k)) = ''gpt''"
    using valid_pairs_sound [of "?vp ! k" dp] assms(2) nth_mem [of k ?vp] by blast
  have p: "window_size = 2 \<and> k = 2 \<longrightarrow>
      conversations (?cs ! 2) = exchange_messages dp (?vp ! 1) @ exchange_messages dp (?vp ! 2) \<and>
      conversations (?cs ! 0) = exchange_messages dp (?vp ! 0)"
  proof
    assume a: "window_size = 2 \<and> k = 2"
    with assms(2) have len: "2 < length ?vp" by simp
    then obtain a0 a1 a2 rest where vp: "?vp = a0 # a1 # a2 # rest"
      by (cases ?vp; cases "tl ?vp"; cases "tl (tl ?vp)") auto
    have "conversations (?cs ! 2) = exchange_messages dp (?vp ! 1) @ exchange_messages dp (?vp ! 2)"
      using w [of 2] len a by (simp add: vp numeral_2_eq_2 numeral_3_eq_3)
    moreover have "conversations (?cs ! 0) = exchange_messages dp (?vp ! 0)"
      using w [of 0] len a by (simp add: vp)
    ultimately show "conversations (?cs ! 2) =
        exchange_messages dp (?vp ! 1) @ exchange_messages dp (?vp ! 2) \<and>
      conversations (?cs ! 0) = exchange_messages dp (?vp ! 0)" by blast
  qed
  show ?thesis using windows_length w [OF assms(2)] l s p by blast
qed

theorem windows_are_trailing_exchanges_witness:
  "(1::int) \<le> 2 \<and> 2 < length (find_valid_pairs sample_dialogue 0 []) \<and>
   length (create_sliding_window_conversations sample_dialogue 2) = 3 \<and>
   conversations (create_sliding_window_conversations sample_dialogue 2 ! 2) =
     [\<lparr>sender = ''human'', msg_value = ''h1''\<rparr>, \<lparr>sender = ''gpt'', msg_value = ''g1''\<rparr>,
      \<lparr>sender = ''human'', msg_value = ''h2''\<rparr>, \<lparr>sender = ''gpt'', msg_value = ''g2''\<rparr>] \<and>
   conversations (create_sliding_window_conversations sample_dialogue 2 ! 0) =
     [\<lparr>sender = ''human'', msg_value = ''h0''\<rparr>, \<lparr>sender = ''gpt'', msg_value = ''g0''\<rparr>]"
proof -
  have h: "(1::int) \<le> 2" "2 < length (find_valid_pairs sample_dialogue 0 [])"
    by (simp_all add: sample_dialogue_pairs)
  show ?thesis
    using h windows_are_trailing_exchanges [OF h]
    by (simp add: sample_dialogue_pairs exchange_messages_def) (simp add: sample_dialogue_def)
qed

text \<open>
  Claim C4. The scan from index 0 records \<open>(i, i + 1)\<close> and moves on by 2 exactly when message
  \<open>i\<close> is from \<^verbatim>\<open>human\<close> and message \<open>i + 1\<close> from \<^verbatim>\<open>gpt\<close>, and moves on by 1 otherwise; it
  computes what the scan of the specification computes, every pair it records is such an
  adjacency, and on the senders human, gpt, human, human, gpt it records \<open>(0, 1)\<close> and
  \<open>(3, 4)\<close>.
\<close>

theorem scan_finds_adjacent_exchanges:
  "find_valid_pairs dp 0 [] = exchange_scan 0 dp \<and>
   find_valid_pairs dp i acc =
     (if i + 1 < length dp
      then (if sender (dp ! i) = ''human'' \<and> sender (dp ! (i + 1)) = ''gpt''
            then find_valid_pairs dp (i + 2) (acc @ [(i, i + 1)])
            else find_valid_pairs dp (i + 1) acc)
      else acc) \<and>
   (\<forall>p \<in> set (find_valid_pairs dp 0 []).
      snd p = fst p + 1 \<and> snd p < length dp \<and>
      sender (dp ! fst p) = ''human'' \<and> sender (dp ! snd p) = ''gpt'') \<and>
   (map sender dp = [''human'', ''gpt'', ''human'', ''human'', ''gpt''] \<longrightarrow>
      find_valid_pairs dp 0 [] = [(0, 1), (3, 4)])"
proof -
  have a: "find_valid_pairs dp 0 [] = exchange_scan 0 dp"
    by (simp add: find_valid_pairs_scan)
  have b: "find_valid_pairs dp i acc =
     (if i + 1 < length dp
      then (if sender (dp ! i) = ''human'' \<and> sender (dp ! (i + 1)) = ''gpt''
            then find_valid_pairs dp (i + 2) (acc @ [(i, i + 1)])
            else find_valid_pairs dp (i + 1) acc)
      else acc)"
    by (rule find_valid_pairs.simps)
  have c: "\<forall>p \<in> set (find_valid_pairs dp 0 []).
      snd p = fst p + 1 \<and> snd p < length dp \<and>
      sender (dp ! fst p) = ''human'' \<and> sender (dp ! snd p) = ''gpt''"
    using valid_pairs_sound by blast
  have d: "map sender dp = [''human'', ''gpt'', ''human'', ''human'', ''gpt''] \<longrightarrow>
      find_valid_pairs dp 0 [] = [(0, 1), (3, 4)]"
  proof
    assume m: "map sender dp = [''human'', ''gpt'', ''human'', ''human'', ''gpt'']"
    then obtain m0 m1 m2 m3 m4 where dp: "dp = [m0, m1, m2, m3, m4]"
      by (auto simp: map_eq_Cons_conv)
    with m show "find_valid_pairs dp 0 [] = [(0, 1), (3, 4)]"
      by (simp add: find_valid_pairs_scan)
  qed
  from a b c d show ?thesis by blast
qed

theorem scan_finds_adjacent_exchanges_witness:
  "map sender sample_unbalanced = [''human'', ''gpt'', ''human'', ''human'', ''gpt''] \<and>
   find_valid_pairs sample_unbalanced 0 [] = [(0, 1), (3, 4)] \<and>
   exchange_scan 0 sample_unbalanced = [(0, 1), (3, 4)]"
  using scan_finds_adjacent_exchanges [of sample_unbalanced 0 "[]"]
  by (simp add: sample_unbalanced_def)

section \<open>The aligner: the two inner loops\<close>

lemma first_greatest_iff:
  "first_greatest f xs i \<longleftrightarrow>
     i < length xs \<and> (\<forall>y \<in> set xs. f y \<le> f (xs ! i)) \<and> (\<forall>y \<in> set (take i xs). f y < f (xs ! i))"
proof -
  have a: "(\<forall>j \<in> {0 ..< length xs}. f (xs ! j) \<le> c) \<longleftrightarrow> (\<forall>y \<in> set xs. f y \<le> c)" for c
    by (auto simp: all_set_conv_all_nth)
  have b: "i < length xs \<Longrightarrow>
      (\<forall>j \<in> {0 ..< i}. f (xs ! j) < c) \<longleftrightarrow> (\<forall>y \<in> set (take i xs). f y < c)" for c
    by (auto simp: all_set_conv_all_nth)
  show ?thesis unfolding first_greatest_def using a b by blast
qed

lemma first_greatest_Cons_0:
  "first_greatest f (x # xs) 0 \<longleftrightarrow> (\<forall>y \<in> set xs. f y \<le> f x)"
  by (auto simp: first_greatest_iff)

lemma first_greatest_Cons_Suc:
  "first_greatest f (x # xs) (Suc i) \<longleftrightarrow> first_greatest f xs i \<and> f x < f (xs ! i)"
  by (auto simp: first_greatest_iff)

lemma first_least_greatest: "first_least f xs i = first_greatest (\<lambda>x. - f x) xs i"
  by (simp add: first_least_def first_greatest_def)

lemma first_least_Cons_0:
  "first_least f (x # xs) 0 \<longleftrightarrow> (\<forall>y \<in> set xs. f x \<le> f y)"
  by (simp add: first_least_greatest first_greatest_Cons_0)

lemma first_least_Cons_Suc:
  "first_least f (x # xs) (Suc i) \<longleftrightarrow> first_least f xs i \<and> f (xs ! i) < f x"
  by (simp add: first_least_greatest first_greatest_Cons_Suc)

lemma segment_score_eq:
  "rnd (t_end t - t_start t) \<noteq> 0 \<Longrightarrow> segment_score rnd t s = Inr (score rnd t s)"
  by (simp add: segment_score_def score_def)

lemma segment_score_zero:
  "rnd (t_end t - t_start t) = 0 \<Longrightarrow> segment_score rnd t s = Inl ZeroDivisionError"
  by (simp add: segment_score_def)

lemma best_loop_char:
  assumes "rnd (t_end t - t_start t) \<noteq> 0"
  shows "((\<forall>s \<in> set ss. score rnd t s \<le> m) \<longrightarrow> best_loop rnd t ss m b = Inr b) \<and>
         (\<not> (\<forall>s \<in> set ss. score rnd t s \<le> m) \<longrightarrow>
            (\<exists>i. first_greatest (score rnd t) ss i \<and> m < score rnd t (ss ! i) \<and>
                 best_loop rnd t ss m b = Inr (Some (ss ! i))))"
proof (induction ss arbitrary: m b)
  case Nil
  then show ?case by simp
next
  case (Cons s ss)
  note sc = segment_score_eq [of rnd t s, OF assms]
  show ?case
  proof (cases "score rnd t s > m")
    case True
    then have step: "best_loop rnd t (s # ss) m b = best_loop rnd t ss (score rnd t s) (Some s)"
      by (simp add: sc)
    show ?thesis
    proof (cases "\<forall>x \<in> set ss. score rnd t x \<le> score rnd t s")
      case all: True
      then have "best_loop rnd t ss (score rnd t s) (Some s) = Inr (Some s)"
        using Cons.IH [of "score rnd t s" "Some s"] by blast
      moreover have "first_greatest (score rnd t) (s # ss) 0"
        using all by (simp add: first_greatest_Cons_0)
      ultimately have "first_greatest (score rnd t) (s # ss) 0 \<and>
          m < score rnd t ((s # ss) ! 0) \<and>
          best_loop rnd t (s # ss) m b = Inr (Some ((s # ss) ! 0))"
        using True step by simp
      then show ?thesis using True by (metis list.set_intros(1) not_le)
    next
      case False
      then obtain i where i: "first_greatest (score rnd t) ss i"
          "score rnd t s < score rnd t (ss ! i)"
          "best_loop rnd t ss (score rnd t s) (Some s) = Inr (Some (ss ! i))"
        using Cons.IH [of "score rnd t s" "Some s"] by blast
      have "first_greatest (score rnd t) (s # ss) (Suc i) \<and>
          m < score rnd t ((s # ss) ! Suc i) \<and>
          best_loop rnd t (s # ss) m b = Inr (Some ((s # ss) ! Suc i))"
        using i True step by (simp add: first_greatest_Cons_Suc)
      then show ?thesis using True by (metis list.set_intros(1) not_le)
    qed
  next
    case False
    then have step: "best_loop rnd t (s # ss) m b = best_loop rnd t ss m b"
      by (simp add: sc)
    show ?thesis
    proof (cases "\<forall>x \<in> set ss. score rnd t x \<le> m")
      case True
      then have "best_loop rnd t ss m b = Inr b" using Cons.IH [of m b] by blast
      with True False step show ?thesis by auto
    next
      case nall: False
      then obtain i where i: "first_greatest (score rnd t) ss i" "m < score rnd t (ss ! i)"
          "best_loop rnd t ss m b = Inr (Some (ss ! i))"
        using Cons.IH [of m b] by blast
      have "first_greatest (score rnd t) (s # ss) (Suc i) \<and>
          m < score rnd t ((s # ss) ! Suc i) \<and>
          best_loop rnd t (s # ss) m b = Inr (Some ((s # ss) ! Suc i))"
        using i False step by (simp add: first_greatest_Cons_Suc)
      moreover have "\<not> (\<forall>x \<in> set (s # ss). score rnd t x \<le> m)" using nall by auto
      ultimately show ?thesis by blast
    qed
  qed
qed

lemma closest_loop_char:
  fixes t_mid :: real and rnd :: "real \<Rightarrow> real"
  defines "dst \<equiv> \<lambda>s. \<bar>rnd (t_mid - rnd (rnd (start_sec s + end_sec s) / 2))\<bar>"
  shows "((\<forall>s \<in> set ss. \<not> below md (dst s)) \<longrightarrow> closest_loop rnd t_mid ss md c = c) \<and>
         (\<not> (\<forall>s \<in> set ss. \<not> below md (dst s)) \<longrightarrow>
            (\<exists>i. first_least dst ss i \<and> below md (dst (ss ! i)) \<and>
                 closest_loop rnd t_mid ss md c = Some (ss ! i)))"
proof (induction ss arbitrary: md c)
  case Nil
  then show ?case by simp
next
  case (Cons s ss)
  show ?case
  proof (cases "below md (dst s)")
    case True
    then have step: "closest_loop rnd t_mid (s # ss) md c =
        closest_loop rnd t_mid ss (Some (dst s)) (Some s)"
      by (simp add: below_def dst_def Let_def)
    show ?thesis
    proof (cases "\<forall>x \<in> set ss. \<not> below (Some (dst s)) (dst x)")
      case all: True
      then have "closest_loop rnd t_mid ss (Some (dst s)) (Some s) = Some s"
        using Cons.IH [of "Some (dst s)" "Some s"] by blast
      moreover have "first_least dst (s # ss) 0"
        using all by (auto simp: first_least_Cons_0 below_def)
      ultimately have "first_least dst (s # ss) 0 \<and> below md (dst ((s # ss) ! 0)) \<and>
          closest_loop rnd t_mid (s # ss) md c = Some ((s # ss) ! 0)"
        using True step by simp
      then show ?thesis using True by (metis list.set_intros(1))
    next
      case False
      then obtain i where i: "first_least dst ss i" "below (Some (dst s)) (dst (ss ! i))"
          "closest_loop rnd t_mid ss (Some (dst s)) (Some s) = Some (ss ! i)"
        using Cons.IH [of "Some (dst s)" "Some s"] by blast
      have lt: "dst (ss ! i) < dst s" using i(2) by (simp add: below_def)
      have "below md (dst (ss ! i))"
        using True lt by (auto simp: below_def split: option.splits)
      then have "first_least dst (s # ss) (Suc i) \<and> below md (dst ((s # ss) ! Suc i)) \<and>
          closest_loop rnd t_mid (s # ss) md c = Some ((s # ss) ! Suc i)"
        using i lt step by (simp add: first_least_Cons_Suc)
      then show ?thesis using True by (metis list.set_intros(1))
    qed
  next
    case False
    then have step: "closest_loop rnd t_mid (s # ss) md c = closest_loop rnd t_mid ss md c"
      by (simp add: below_def dst_def Let_def)
    show ?thesis
    proof (cases "\<forall>x \<in> set ss. \<not> below md (dst x)")
      case True
      then have "closest_loop rnd t_mid ss md c = c" using Cons.IH [of md c] by blast
      with True False step show ?thesis by auto
    next
      case nall: False
      then obtain i where i: "first_least dst ss i" "below md (dst (ss ! i))"
          "closest_loop rnd t_mid ss md c = Some (ss ! i)"
        using Cons.IH [of md c] by blast
      have "dst (ss ! i) < dst s"
        using False i(2) by (auto simp: below_def split: option.splits)
      then have "first_least dst (s # ss) (Suc i) \<and> below md (dst ((s # ss) ! Suc i)) \<and>
          closest_loop rnd t_mid (s # ss) md c = Some ((s # ss) ! Suc i)"
        using i step by (simp add: first_least_Cons_Suc)
      moreover have "\<not> (\<forall>x \<in> set (s # ss). \<not> below md (dst x))" using nall by auto
      ultimately show ?thesis by blast
    qed
  qed
qed

lemma closest_segment_char:
  "ss \<noteq> [] \<Longrightarrow>
   \<exists>i. first_least (midpoint_distance rnd t) ss i \<and> closest_segment rnd t ss = Some (ss ! i)"
proof -
  let ?m = "rnd (rnd (t_start t + t_end t) / 2)"
  let ?d = "\<lambda>s. \<bar>rnd (?m - rnd (rnd (start_sec s + end_sec s) / 2))\<bar>"
  assume "ss \<noteq> []"
  then have "\<not> (\<forall>s \<in> set ss. \<not> below None (?d s))"
    by (cases ss) (auto simp: below_def)
  with closest_loop_char [of ss None rnd ?m None]
  have "\<exists>i. first_least ?d ss i \<and> closest_loop rnd ?m ss None None = Some (ss ! i)"
    by blast
  moreover have "midpoint_distance rnd t = ?d"
    by (rule ext) (simp add: midpoint_distance_def)
  ultimately show ?thesis by (simp add: closest_segment_def)
qed

lemma closest_segment_Nil: "closest_segment rnd t [] = None"
  by (simp add: closest_segment_def)

lemma best_segment_Nil: "best_segment rnd t [] = Inr None"
  by (simp add: best_segment_def)

lemma speaker_label_Nil: "speaker_label rnd t [] = Inr ''Speaker Unknown''"
  by (simp add: speaker_label_def best_segment_Nil closest_segment_Nil)

lemma best_segment_none:
  "rnd (t_end t - t_start t) \<noteq> 0 \<Longrightarrow> \<forall>s \<in> set ss. score rnd t s \<le> 0 \<Longrightarrow>
   best_segment rnd t ss = Inr None"
  using best_loop_char [of rnd t ss 0 None] by (simp add: best_segment_def)

lemma best_segment_some:
  "rnd (t_end t - t_start t) \<noteq> 0 \<Longrightarrow> \<not> (\<forall>s \<in> set ss. score rnd t s \<le> 0) \<Longrightarrow>
   \<exists>i. first_greatest (score rnd t) ss i \<and> 0 < score rnd t (ss ! i) \<and>
       best_segment rnd t ss = Inr (Some (ss ! i))"
  using best_loop_char [of rnd t ss 0 None] by (simp add: best_segment_def)

lemma best_segment_zero:
  "rnd (t_end t - t_start t) = 0 \<Longrightarrow> ss \<noteq> [] \<Longrightarrow>
   best_segment rnd t ss = Inl ZeroDivisionError"
  by (cases ss) (simp_all add: best_segment_def segment_score_zero)

lemma speaker_label_defined:
  assumes "rnd (t_end t - t_start t) \<noteq> 0 \<or> ss = []"
  shows "\<exists>l. speaker_label rnd t ss = Inr l"
proof (cases "ss = []")
  case True
  then show ?thesis by (simp add: speaker_label_Nil)
next
  case False
  with assms have ne: "rnd (t_end t - t_start t) \<noteq> 0" by simp
  show ?thesis
  proof (cases "\<forall>s \<in> set ss. score rnd t s \<le> 0")
    case True
    from closest_segment_char [OF False, of rnd t] obtain i where
      "closest_segment rnd t ss = Some (ss ! i)" by blast
    then show ?thesis
      using best_segment_none [of rnd t ss, OF ne True] by (simp add: speaker_label_def)
  next
    case nall: False
    from best_segment_some [of rnd t ss, OF ne nall] obtain i where
      "best_segment rnd t ss = Inr (Some (ss ! i))" by blast
    then show ?thesis by (simp add: speaker_label_def)
  qed
qed

subsection \<open>Rounding\<close>

lemma rounding_exact: "rounding exact"
  unfolding rounding_def exact_def mono_def by blast

lemma rounding_mono: "rounding rnd \<Longrightarrow> x \<le> y \<Longrightarrow> rnd x \<le> rnd y"
  unfolding rounding_def mono_def by blast

lemma rounding_half:
  assumes "rounding rnd" and "- 64 \<le> k" and "k \<le> 64"
  shows "rnd (of_int k / 2) = of_int k / 2"
proof -
  have "k \<in> {- 64 .. 64}" using assms(2,3) by (simp only: atLeastAtMost_iff) 
  with assms(1) show ?thesis unfolding rounding_def by blast
qed

lemma rounding_int:
  assumes "rounding rnd" and "- 32 \<le> n" and "n \<le> 32"
  shows "rnd (of_int n) = of_int n"
proof -
  have "rnd (of_int (2 * n) / 2) = of_int (2 * n) / 2"
    using assms by (intro rounding_half) simp_all
  then show ?thesis by simp
qed

lemma rounding_0: "rounding rnd \<Longrightarrow> rnd 0 = 0"
  using rounding_int [of rnd 0] by simp

lemma rounding_1: "rounding rnd \<Longrightarrow> rnd 1 = 1"
  using rounding_int [of rnd 1] by simp

lemma score_reversed:
  assumes "rounding rnd" and "t_end t < t_start t" and "rnd (t_end t - t_start t) \<noteq> 0"
  shows "1 \<le> score rnd t s"
proof -
  let ?o = "rnd (min (t_end t) (end_sec s) - max (t_start t) (start_sec s))"
  let ?d = "rnd (t_end t - t_start t)"
  have "?d \<le> rnd 0" using assms(2) by (intro rounding_mono [OF assms(1)]) simp
  with assms(3) have d: "?d < 0" by (simp add: rounding_0 [OF assms(1)])
  have "min (t_end t) (end_sec s) - max (t_start t) (start_sec s) \<le> t_end t - t_start t"
    by (simp add: min_def max_def)
  then have o: "?o \<le> ?d" by (rule rounding_mono [OF assms(1)])
  from o d have "1 \<le> ?o / ?d" by (simp add: le_divide_eq)
  then have "rnd 1 \<le> rnd (?o / ?d)" by (rule rounding_mono [OF assms(1)])
  then show ?thesis by (simp add: score_def rounding_1 [OF assms(1)])
qed

lemma equal_ends_raise:
  "rounding rnd \<Longrightarrow> t_end t = t_start t \<Longrightarrow> rnd (t_end t - t_start t) = 0"
  by (simp add: rounding_0)

subsection \<open>The aligner on the sample inputs\<close>

lemmas aligner_defs =
  align_def speaker_label_def best_segment_def closest_segment_def segment_score_def
  scenario_transcript_def scenario_speakers_def late_segment_def reversed_segment_def
  empty_segment_def near_and_far_def padded_segment_def exact_def

lemma strip_examples: "strip ''hi'' = ''hi''" "strip ''how are you'' = ''how are you''"
  "strip '' hi'' = ''hi''"
  by (simp_all add: strip_def isspace_def)

lemma late_label:
  "best_segment exact late_segment scenario_speakers = Inr None"
  "closest_segment exact late_segment scenario_speakers = Some (scenario_speakers ! 1)"
  "speaker_label exact late_segment scenario_speakers = Inr ''Speaker B''"
  by (simp_all add: aligner_defs)

lemma padded_label:
  "best_segment exact padded_segment scenario_speakers = Inr (Some (scenario_speakers ! 0))"
  "speaker_label exact padded_segment scenario_speakers = Inr ''Speaker A''"
  "align exact [padded_segment] scenario_speakers =
     ([\<lparr>speaker = ''Speaker A'', utext = '' hi''\<rparr>], None)"
  by (simp_all add: aligner_defs)

lemma reversed_label:
  "segment_score exact reversed_segment (near_and_far ! 0) = Inr 1"
  "segment_score exact reversed_segment (near_and_far ! 1) = Inr (7 / 2)"
  "best_segment exact reversed_segment near_and_far = Inr (Some (near_and_far ! 1))"
  "closest_segment exact reversed_segment near_and_far = Some (near_and_far ! 0)"
  "speaker_label exact reversed_segment near_and_far = Inr ''Speaker B''"
  by (simp_all add: aligner_defs)

lemma empty_label:
  "speaker_label exact empty_segment near_and_far = Inl ZeroDivisionError"
  "align exact [empty_segment] near_and_far = ([], Some ZeroDivisionError)"
  by (simp_all add: aligner_defs)

lemma two_turn_labels:
  assumes "rounding rnd"
  shows "speaker_label rnd \<lparr>t_start = 0, t_end = 5, t_text = x\<rparr>
           [\<lparr>start_sec = 0, end_sec = 4, speaker_tag = a\<rparr>,
            \<lparr>start_sec = 4, end_sec = 10, speaker_tag = b\<rparr>] = Inr (''Speaker '' @ a)"
    and "speaker_label rnd \<lparr>t_start = 5, t_end = 10, t_text = y\<rparr>
           [\<lparr>start_sec = 0, end_sec = 4, speaker_tag = a\<rparr>,
            \<lparr>start_sec = 4, end_sec = 10, speaker_tag = b\<rparr>] = Inr (''Speaker '' @ b)"
proof -
  have r: "rnd 1 = 1" "rnd 4 = 4" "rnd 5 = 5" "rnd (- 1) = - 1" "rnd 0 = 0"
    using rounding_int [OF assms, of 1] rounding_int [OF assms, of 4]
      rounding_int [OF assms, of 5] rounding_int [OF assms, of "- 1"]
      rounding_int [OF assms, of 0]
    by simp_all
  have h: "rnd (1 / 2) = 1 / 2" using rounding_half [OF assms, of 1] by simp
  have "rnd (1 / 2) \<le> rnd (4 / 5)" by (rule rounding_mono [OF assms]) simp
  with h have pos: "0 < rnd (4 / 5)" by simp
  have "rnd (1 / 5) \<le> rnd (4 / 5)" by (rule rounding_mono [OF assms]) simp
  then have le: "\<not> rnd (4 / 5) < rnd (1 / 5)" by simp
  have "rnd (- 1 / 5) \<le> rnd 0" by (rule rounding_mono [OF assms]) simp
  then have neg: "\<not> 0 < rnd (- 1 / 5)" by (simp add: r)
  show "speaker_label rnd \<lparr>t_start = 0, t_end = 5, t_text = x\<rparr>
           [\<lparr>start_sec = 0, end_sec = 4, speaker_tag = a\<rparr>,
            \<lparr>start_sec = 4, end_sec = 10, speaker_tag = b\<rparr>] = Inr (''Speaker '' @ a)"
    using pos le by (simp add: speaker_label_def best_segment_def segment_score_def r)
  show "speaker_label rnd \<lparr>t_start = 5, t_end = 10, t_text = y\<rparr>
           [\<lparr>start_sec = 0, end_sec = 4, speaker_tag = a\<rparr>,
            \<lparr>start_sec = 4, end_sec = 10, speaker_tag = b\<rparr>] = Inr (''Speaker '' @ b)"
    using neg by (simp add: speaker_label_def best_segment_def segment_score_def r)
qed

lemma scenario_align:
  assumes "rounding rnd"
  shows "align rnd scenario_transcript scenario_speakers =
     ([\<lparr>speaker = ''Speaker A'', utext = ''hi''\<rparr>,
       \<lparr>speaker = ''Speaker B'', utext = ''how are you''\<rparr>], None)"
  using two_turn_labels [OF assms, of _ "''A''" "''B''"]
  by (simp add: align_def scenario_transcript_def scenario_speakers_def)

lemma numeric_align:
  assumes "rounding rnd"
  shows "align rnd scenario_transcript numeric_speakers =
     ([\<lparr>speaker = ''Speaker 1'', utext = ''hi''\<rparr>,
       \<lparr>speaker = ''Speaker 2'', utext = ''how are you''\<rparr>], None)"
  using two_turn_labels [OF assms, of _ "''1''" "''2''"]
  by (simp add: align_def scenario_transcript_def numeric_speakers_def)

subsection \<open>The outer loop, and the reader on the sample lines\<close>

lemma align_loop_total:
  assumes "\<forall>t \<in> set ts. \<exists>l. speaker_label rnd t ss = Inr l"
  shows "\<exists>us. align_loop rnd ss ts emitted = (emitted @ us, None) \<and>
              map (\<lambda>u. Inr (speaker u)) us = map (\<lambda>t. speaker_label rnd t ss) ts \<and>
              map utext us = map t_text ts"
  using assms
proof (induction ts arbitrary: emitted)
  case Nil
  then show ?case by simp
next
  case (Cons t ts)
  then obtain l where l: "speaker_label rnd t ss = Inr l" by auto
  from Cons.IH [of "emitted @ [\<lparr>speaker = l, utext = t_text t\<rparr>]"] Cons.prems
  obtain us where us: "align_loop rnd ss ts (emitted @ [\<lparr>speaker = l, utext = t_text t\<rparr>]) =
      ((emitted @ [\<lparr>speaker = l, utext = t_text t\<rparr>]) @ us, None)"
    "map (\<lambda>u. Inr (speaker u)) us = map (\<lambda>t. speaker_label rnd t ss) ts"
    "map utext us = map t_text ts" by auto
  have "align_loop rnd ss (t # ts) emitted =
      (emitted @ (\<lparr>speaker = l, utext = t_text t\<rparr> # us), None)"
    using l us(1) by simp
  moreover have "map (\<lambda>u. Inr (speaker u)) (\<lparr>speaker = l, utext = t_text t\<rparr> # us) =
      map (\<lambda>t. speaker_label rnd t ss) (t # ts)"
    using l us(2) by simp
  moreover have "map utext (\<lparr>speaker = l, utext = t_text t\<rparr> # us) = map t_text (t # ts)"
    using us(3) by simp
  ultimately show ?case by blast
qed

lemma align_total:
  assumes "(\<forall>t \<in> set ts. rnd (t_end t - t_start t) \<noteq> 0) \<or> ss = []"
  shows "\<exists>us. align rnd ts ss = (us, None) \<and>
              map (\<lambda>u. Inr (speaker u)) us = map (\<lambda>t. speaker_label rnd t ss) ts \<and>
              map utext us = map t_text ts"
proof -
  have "\<forall>t \<in> set ts. \<exists>l. speaker_label rnd t ss = Inr l"
    using assms speaker_label_defined [of rnd _ ss] by blast
  from align_loop_total [OF this, of "[]"] show ?thesis by (simp add: align_def)
qed

lemmas reader_defs =
  parse_conversation_file_def final_text_def format_line_def speaker_header_def
  isdigit_def isspace_def strip_def

lemma scenario_read:
  "final_text [\<lparr>speaker = ''Speaker A'', utext = ''hi''\<rparr>,
               \<lparr>speaker = ''Speaker B'', utext = ''how are you''\<rparr>] =
     ''Speaker A: hi\<newline>Speaker B: how are you\<newline>''"
  "parse_conversation_file ''Speaker A: hi\<newline>Speaker B: how are you\<newline>'' = []"
  by (simp_all add: reader_defs)

lemma numeric_read:
  "final_text [\<lparr>speaker = ''Speaker 1'', utext = ''hi''\<rparr>,
               \<lparr>speaker = ''Speaker 2'', utext = ''how are you''\<rparr>] =
     ''Speaker 1: hi\<newline>Speaker 2: how are you\<newline>''"
  "parse_conversation_file ''Speaker 1: hi\<newline>Speaker 2: how are you\<newline>'' =
     [\<lparr>speaker = ''Speaker 1'', utext = ''hi''\<rparr>,
      \<lparr>speaker = ''Speaker 2'', utext = ''how are you''\<rparr>]"
  by (simp_all add: reader_defs)

section \<open>The aligner: claims\<close>

text \<open>
  Claim C2. For a transcript segment of positive duration, whose computed duration is then
  not zero (the difference of two different doubles never is), the score loop raises
  nothing and computes the overlap ratio; the aligner falls back to the midpoint loop
  exactly when every speaker segment has a computed score of at most 0; otherwise it takes
  the first speaker segment whose computed score is greatest, and that score is positive;
  the fallback takes the first speaker segment whose computed midpoint distance is least;
  with no speaker segments the label is \<^verbatim>\<open>Speaker Unknown\<close>.
\<close>

theorem aligner_choice:
  assumes "t_start t < t_end t" and "rnd (t_end t - t_start t) \<noteq> 0"
  shows "segment_score rnd t s = Inr (score rnd t s) \<and>
         (best_segment rnd t ss = Inr None \<longleftrightarrow> (\<forall>s \<in> set ss. score rnd t s \<le> 0)) \<and>
         (\<not> (\<forall>s \<in> set ss. score rnd t s \<le> 0) \<longrightarrow>
            (\<exists>i. first_greatest (score rnd t) ss i \<and> 0 < score rnd t (ss ! i) \<and>
                 best_segment rnd t ss = Inr (Some (ss ! i)) \<and>
                 speaker_label rnd t ss = Inr (''Speaker '' @ speaker_tag (ss ! i)))) \<and>
         ((\<forall>s \<in> set ss. score rnd t s \<le> 0) \<and> ss \<noteq> [] \<longrightarrow>
            (\<exists>i. first_least (midpoint_distance rnd t) ss i \<and>
                 closest_segment rnd t ss = Some (ss ! i) \<and>
                 speaker_label rnd t ss = Inr (''Speaker '' @ speaker_tag (ss ! i)))) \<and>
         speaker_label rnd t [] = Inr ''Speaker Unknown''"
proof -
  note ne = assms(2)
  have pos: "\<not> (\<forall>s \<in> set ss. score rnd t s \<le> 0) \<longrightarrow>
      (\<exists>i. first_greatest (score rnd t) ss i \<and> 0 < score rnd t (ss ! i) \<and>
           best_segment rnd t ss = Inr (Some (ss ! i)) \<and>
           speaker_label rnd t ss = Inr (''Speaker '' @ speaker_tag (ss ! i)))"
  proof
    assume "\<not> (\<forall>s \<in> set ss. score rnd t s \<le> 0)"
    from best_segment_some [of rnd t ss, OF ne this] obtain i where
      i: "first_greatest (score rnd t) ss i" "0 < score rnd t (ss ! i)"
      "best_segment rnd t ss = Inr (Some (ss ! i))" by blast
    then have "speaker_label rnd t ss = Inr (''Speaker '' @ speaker_tag (ss ! i))"
      by (simp add: speaker_label_def)
    with i show "\<exists>i. first_greatest (score rnd t) ss i \<and> 0 < score rnd t (ss ! i) \<and>
           best_segment rnd t ss = Inr (Some (ss ! i)) \<and>
           speaker_label rnd t ss = Inr (''Speaker '' @ speaker_tag (ss ! i))" by blast
  qed
  have fb: "(\<forall>s \<in> set ss. score rnd t s \<le> 0) \<and> ss \<noteq> [] \<longrightarrow>
      (\<exists>i. first_least (midpoint_distance rnd t) ss i \<and>
           closest_segment rnd t ss = Some (ss ! i) \<and>
           speaker_label rnd t ss = Inr (''Speaker '' @ speaker_tag (ss ! i)))"
  proof
    assume a: "(\<forall>s \<in> set ss. score rnd t s \<le> 0) \<and> ss \<noteq> []"
    then have b: "best_segment rnd t ss = Inr None"
      using best_segment_none [of rnd t ss, OF ne] by blast
    from a closest_segment_char [of ss rnd t] obtain i where
      i: "first_least (midpoint_distance rnd t) ss i"
      "closest_segment rnd t ss = Some (ss ! i)" by blast
    then have "speaker_label rnd t ss = Inr (''Speaker '' @ speaker_tag (ss ! i))"
      using b by (simp add: speaker_label_def)
    with i show "\<exists>i. first_least (midpoint_distance rnd t) ss i \<and>
        closest_segment rnd t ss = Some (ss ! i) \<and>
        speaker_label rnd t ss = Inr (''Speaker '' @ speaker_tag (ss ! i))" by blast
  qed
  have iff: "best_segment rnd t ss = Inr None \<longleftrightarrow> (\<forall>s \<in> set ss. score rnd t s \<le> 0)"
  proof
    assume n: "best_segment rnd t ss = Inr None"
    show "\<forall>s \<in> set ss. score rnd t s \<le> 0"
    proof (rule ccontr)
      assume "\<not> (\<forall>s \<in> set ss. score rnd t s \<le> 0)"
      from best_segment_some [of rnd t ss, OF ne this] n show False by auto
    qed
  next
    assume "\<forall>s \<in> set ss. score rnd t s \<le> 0"
    then show "best_segment rnd t ss = Inr None"
      by (rule best_segment_none [of rnd t ss, OF ne])
  qed
  from segment_score_eq [of rnd t s, OF ne] pos fb iff speaker_label_Nil [of rnd t]
  show ?thesis by blast
qed

theorem aligner_choice_witness:
  "t_start late_segment < t_end late_segment \<and>
   exact (t_end late_segment - t_start late_segment) \<noteq> 0 \<and>
   score exact late_segment (scenario_speakers ! 0) = - 3 \<and>
   score exact late_segment (scenario_speakers ! 1) = 0 \<and>
   best_segment exact late_segment scenario_speakers = Inr None \<and>
   first_least (midpoint_distance exact late_segment) scenario_speakers 1 \<and>
   speaker_label exact late_segment scenario_speakers = Inr ''Speaker B'' \<and>
   t_start padded_segment < t_end padded_segment \<and>
   exact (t_end padded_segment - t_start padded_segment) \<noteq> 0 \<and>
   score exact padded_segment (scenario_speakers ! 0) = 1 \<and>
   score exact padded_segment (scenario_speakers ! 1) = 0 \<and>
   first_greatest (score exact padded_segment) scenario_speakers 0 \<and>
   speaker_label exact padded_segment scenario_speakers = Inr ''Speaker A''"
proof -
  have h: "t_start late_segment < t_end late_segment"
    "exact (t_end late_segment - t_start late_segment) \<noteq> 0"
    by (simp_all add: late_segment_def exact_def)
  have g: "t_start padded_segment < t_end padded_segment"
    "exact (t_end padded_segment - t_start padded_segment) \<noteq> 0"
    by (simp_all add: padded_segment_def exact_def)
  have l: "first_least (midpoint_distance exact late_segment) scenario_speakers 1"
    by (simp add: first_least_Cons_Suc first_least_Cons_0 midpoint_distance_def
        late_segment_def scenario_speakers_def exact_def)
  have f: "first_greatest (score exact padded_segment) scenario_speakers 0"
    by (simp add: first_greatest_Cons_0 score_def padded_segment_def
        scenario_speakers_def exact_def)
  have s: "score exact late_segment (scenario_speakers ! 0) = - 3"
    "score exact late_segment (scenario_speakers ! 1) = 0"
    "score exact padded_segment (scenario_speakers ! 0) = 1"
    "score exact padded_segment (scenario_speakers ! 1) = 0"
    by (simp_all add: score_def late_segment_def padded_segment_def scenario_speakers_def
        exact_def)
  show ?thesis
    using h g l f s
      aligner_choice [of late_segment exact "scenario_speakers ! 0" scenario_speakers, OF h]
      aligner_choice [of padded_segment exact "scenario_speakers ! 0" scenario_speakers, OF g]
    by (simp add: late_label padded_label)
qed

text \<open>
  Claim C7, as the code has it. A segment that ends where it starts makes the score loop
  divide by zero as soon as there is a speaker segment, and the aligner raises
  \<^verbatim>\<open>ZeroDivisionError\<close>. A segment that ends before it starts, whose computed duration is
  then not zero, divides by a negative number: nothing is raised, every computed score is at
  least 1, and the label is that of the first speaker segment with the greatest computed
  score, never the fallback's. With no speaker segments nothing is scored and the label is
  \<^verbatim>\<open>Speaker Unknown\<close>.
\<close>

theorem degenerate_segments:
  assumes "rounding rnd"
  shows "(t_end t = t_start t \<and> ss \<noteq> [] \<longrightarrow>
            best_segment rnd t ss = Inl ZeroDivisionError \<and>
            speaker_label rnd t ss = Inl ZeroDivisionError) \<and>
         (t_end t < t_start t \<and> rnd (t_end t - t_start t) \<noteq> 0 \<and> ss \<noteq> [] \<longrightarrow>
            (\<forall>s \<in> set ss. segment_score rnd t s = Inr (score rnd t s) \<and> 1 \<le> score rnd t s) \<and>
            (\<exists>i. first_greatest (score rnd t) ss i \<and>
                 best_segment rnd t ss = Inr (Some (ss ! i)) \<and>
                 speaker_label rnd t ss = Inr (''Speaker '' @ speaker_tag (ss ! i)))) \<and>
         speaker_label rnd t [] = Inr ''Speaker Unknown''"
proof -
  have z: "t_end t = t_start t \<and> ss \<noteq> [] \<longrightarrow>
      best_segment rnd t ss = Inl ZeroDivisionError \<and>
      speaker_label rnd t ss = Inl ZeroDivisionError"
  proof
    assume a: "t_end t = t_start t \<and> ss \<noteq> []"
    then have "rnd (t_end t - t_start t) = 0" using equal_ends_raise [OF assms] by blast
    with a have "best_segment rnd t ss = Inl ZeroDivisionError"
      using best_segment_zero [of rnd t ss] by blast
    then show "best_segment rnd t ss = Inl ZeroDivisionError \<and>
        speaker_label rnd t ss = Inl ZeroDivisionError"
      by (simp add: speaker_label_def)
  qed
  have r: "t_end t < t_start t \<and> rnd (t_end t - t_start t) \<noteq> 0 \<and> ss \<noteq> [] \<longrightarrow>
      (\<forall>s \<in> set ss. segment_score rnd t s = Inr (score rnd t s) \<and> 1 \<le> score rnd t s) \<and>
      (\<exists>i. first_greatest (score rnd t) ss i \<and>
           best_segment rnd t ss = Inr (Some (ss ! i)) \<and>
           speaker_label rnd t ss = Inr (''Speaker '' @ speaker_tag (ss ! i)))"
  proof
    assume a: "t_end t < t_start t \<and> rnd (t_end t - t_start t) \<noteq> 0 \<and> ss \<noteq> []"
    then have ne: "rnd (t_end t - t_start t) \<noteq> 0" and lt: "t_end t < t_start t" by simp_all
    have sc: "\<forall>s \<in> set ss. segment_score rnd t s = Inr (score rnd t s) \<and> 1 \<le> score rnd t s"
      using segment_score_eq [of rnd t, OF ne] score_reversed [OF assms lt ne] by blast
    from a obtain s where "s \<in> set ss" by (cases ss) auto
    with sc have "\<not> (\<forall>s \<in> set ss. score rnd t s \<le> 0)" by force
    from best_segment_some [of rnd t ss, OF ne this] obtain i where
      i: "first_greatest (score rnd t) ss i" "best_segment rnd t ss = Inr (Some (ss ! i))"
      by blast
    then have "speaker_label rnd t ss = Inr (''Speaker '' @ speaker_tag (ss ! i))"
      by (simp add: speaker_label_def)
    with sc i show
      "(\<forall>s \<in> set ss. segment_score rnd t s = Inr (score rnd t s) \<and> 1 \<le> score rnd t s) \<and>
       (\<exists>i. first_greatest (score rnd t) ss i \<and>
            best_segment rnd t ss = Inr (Some (ss ! i)) \<and>
            speaker_label rnd t ss = Inr (''Speaker '' @ speaker_tag (ss ! i)))" by blast
  qed
  from z r speaker_label_Nil [of rnd t] show ?thesis by blast
qed

theorem degenerate_segments_witness:
  "rounding exact \<and>
   t_end empty_segment = t_start empty_segment \<and> near_and_far \<noteq> [] \<and>
   speaker_label exact empty_segment near_and_far = Inl ZeroDivisionError \<and>
   t_end reversed_segment < t_start reversed_segment \<and>
   exact (t_end reversed_segment - t_start reversed_segment) \<noteq> 0 \<and>
   score exact reversed_segment (near_and_far ! 0) = 1 \<and>
   speaker_label exact reversed_segment near_and_far = Inr ''Speaker B''"
  using degenerate_segments [OF rounding_exact, of empty_segment near_and_far]
    degenerate_segments [OF rounding_exact, of reversed_segment near_and_far]
  by (simp add: reversed_label empty_label rounding_exact)
    (simp add: score_def empty_segment_def reversed_segment_def near_and_far_def exact_def)

text \<open>
  The claim as it was stated fails on a segment from 5 to 3 and speaker turns from 3.5 to
  4.5 (tag A) and from 10 to 20 (tag B): the scores are 1 and 3.5, no error is raised, and
  the score loop picks B although the midpoint of A is nearest. A segment from 3 to 3
  raises on the same speaker turns, so the two kinds of segment are not treated alike.
  All the numbers are multiples of one half, on which doubles compute exactly.
\<close>

theorem degenerate_segments_counterexample:
  "t_end reversed_segment \<le> t_start reversed_segment \<and>
   segment_score exact reversed_segment (near_and_far ! 0) = Inr 1 \<and>
   segment_score exact reversed_segment (near_and_far ! 1) = Inr (7 / 2) \<and>
   best_segment exact reversed_segment near_and_far = Inr (Some (near_and_far ! 1)) \<and>
   closest_segment exact reversed_segment near_and_far = Some (near_and_far ! 0) \<and>
   speaker_label exact reversed_segment near_and_far = Inr ''Speaker B'' \<and>
   t_end empty_segment \<le> t_start empty_segment \<and>
   speaker_label exact empty_segment near_and_far = Inl ZeroDivisionError"
  by (simp add: aligner_defs)

text \<open>
  Claim C8, as the code has it. When no transcript segment ends where it starts (and the
  computed duration of such a segment is not zero, as it never is for doubles), or there
  are no speaker segments, the aligner raises nothing and emits one utterance per
  transcript segment, in the order of the input, labelled as \<^verbatim>\<open>speaker_label\<close> says; the
  text of an utterance is the trimmed text of its segment whenever the segment's text has
  no whitespace around it.
\<close>

theorem aligner_one_per_segment:
  assumes "(\<forall>t \<in> set ts. t_start t \<noteq> t_end t) \<or> ss = []"
    and "\<forall>t \<in> set ts. t_start t \<noteq> t_end t \<longrightarrow> rnd (t_end t - t_start t) \<noteq> 0"
  shows "snd (align rnd ts ss) = None \<and>
         length (fst (align rnd ts ss)) = length ts \<and>
         map (\<lambda>u. Inr (speaker u)) (fst (align rnd ts ss)) =
           map (\<lambda>t. speaker_label rnd t ss) ts \<and>
         (\<forall>i \<in> {0 ..< length ts}.
            strip (t_text (ts ! i)) = t_text (ts ! i) \<longrightarrow>
            utext (fst (align rnd ts ss) ! i) = strip (t_text (ts ! i)))"
proof -
  have "(\<forall>t \<in> set ts. rnd (t_end t - t_start t) \<noteq> 0) \<or> ss = []"
    using assms by blast
  from align_total [OF this] obtain us where us: "align rnd ts ss = (us, None)"
    "map (\<lambda>u. Inr (speaker u)) us = map (\<lambda>t. speaker_label rnd t ss) ts"
    "map utext us = map t_text ts" by blast
  have len: "length us = length ts" using us(3) by (rule map_eq_imp_length_eq)
  have "utext (us ! i) = t_text (ts ! i)" if "i < length ts" for i
    using that len us(3) by (metis nth_map)
  then show ?thesis using us len by simp
qed

theorem aligner_one_per_segment_witness:
  "t_start (scenario_transcript ! 0) \<noteq> t_end (scenario_transcript ! 0) \<and>
   t_start (scenario_transcript ! 1) \<noteq> t_end (scenario_transcript ! 1) \<and>
   length scenario_transcript = 2 \<and>
   align exact scenario_transcript scenario_speakers =
     ([\<lparr>speaker = ''Speaker A'', utext = ''hi''\<rparr>,
       \<lparr>speaker = ''Speaker B'', utext = ''how are you''\<rparr>], None) \<and>
   strip (t_text (scenario_transcript ! 1)) = ''how are you''"
proof -
  have h: "(\<forall>t \<in> set scenario_transcript. t_start t \<noteq> t_end t) \<or> scenario_speakers = []"
    "\<forall>t \<in> set scenario_transcript.
       t_start t \<noteq> t_end t \<longrightarrow> exact (t_end t - t_start t) \<noteq> 0"
    by (simp_all add: scenario_transcript_def exact_def)
  show ?thesis
    using aligner_one_per_segment [of scenario_transcript scenario_speakers exact, OF h]
    by (simp add: scenario_align [OF rounding_exact])
      (simp add: scenario_transcript_def strip_examples)
qed

text \<open>
  The claim as it was stated fails twice: one segment from 3 to 3 gives no utterance but
  \<^verbatim>\<open>ZeroDivisionError\<close>, and a segment from 0 to 4 with the text \<^verbatim>\<open>" hi"\<close> is emitted with
  that text, not with \<^verbatim>\<open>"hi"\<close>. All the numbers are whole, on which doubles compute
  exactly.
\<close>

theorem aligner_one_per_segment_counterexample:
  "length [empty_segment] = 1 \<and>
   align exact [empty_segment] near_and_far = ([], Some ZeroDivisionError) \<and>
   align exact [padded_segment] scenario_speakers =
     ([\<lparr>speaker = ''Speaker A'', utext = '' hi''\<rparr>], None) \<and>
   t_text padded_segment = '' hi'' \<and>
   strip '' hi'' = ''hi'' \<and> '' hi'' \<noteq> ''hi''"
  by (simp add: empty_label padded_label strip_examples) (simp add: padded_segment_def)

section \<open>The stages in sequence\<close>

text \<open>
  The aligner writes its lines to a file, and the converter reads the file with
  \<^verbatim>\<open>parse_conversation_file\<close>; a text without carriage returns is read as it was written.
\<close>

lemma claimed_profile_simps:
  "speaker_mapping claimed_profile = [''B'' \<mapsto> ''Partner A'', ''A'' \<mapsto> ''therapist'']"
  "excluded_speakers claimed_profile = {}"
  "therapist_speakers claimed_profile = {''A''}"
  by (simp_all add: claimed_profile_def setup_speaker_mapping_def init_converter_def)

lemma numeric_profile_simps:
  "speaker_mapping numeric_profile =
     [''Speaker 2'' \<mapsto> ''Partner A'', ''Speaker 1'' \<mapsto> ''therapist'']"
  "excluded_speakers numeric_profile = {}"
  "therapist_speakers numeric_profile = {''Speaker 1''}"
  by (simp_all add: numeric_profile_def setup_speaker_mapping_def init_converter_def)

lemmas step_defs =
  group_consecutive_utterances_def group_consecutive_utterances3_def
  group_step_def group_step3_def determine_role_def open_group_def open_group3_def
  append_line_def append_line3_def append_client3_def close_group_def close_group3_def
  prefixed_def

lemma no_utterances:
  "group_consecutive_utterances3 c [] = []" "create_dialogue_pairs [] = []"
  "create_sliding_window_conversations [] window_size = []"
  by (simp_all add: group_consecutive_utterances3_def create_dialogue_pairs_def
      create_sliding_window_conversations_def)

lemma numeric_groups3:
  "group_consecutive_utterances3 numeric_profile
     [\<lparr>speaker = ''Speaker 1'', utext = ''hi''\<rparr>,
      \<lparr>speaker = ''Speaker 2'', utext = ''how are you''\<rparr>] =
     [\<lparr>role = Some Therapist, content = [''hi''], current_speaker = None\<rparr>,
      \<lparr>role = Some Client, content = [''[Partner A]: how are you''],
        current_speaker = Some ''Partner A''\<rparr>]"
  by (simp add: step_defs numeric_profile_simps)

lemma numeric_windows:
  "create_sliding_window_conversations
     [\<lparr>sender = ''gpt'', msg_value = ''hi''\<rparr>,
      \<lparr>sender = ''human'', msg_value = ''[Partner A]: how are you''\<rparr>] window_size = []"
  by (simp add: create_sliding_window_conversations_def find_valid_pairs_scan)

text \<open>
  With the tags 1 and 2 and a converter over the labels \<^verbatim>\<open>Speaker 1\<close> and \<^verbatim>\<open>Speaker 2\<close>
  the reader finds both utterances, and the groups and messages are those of the scenario.
\<close>

lemma numeric_scenario:
  assumes "rounding rnd"
  shows "map format_line (fst (align rnd scenario_transcript numeric_speakers)) =
           [''Speaker 1: hi'', ''Speaker 2: how are you''] \<and>
         parse_conversation_file
             (final_text (fst (align rnd scenario_transcript numeric_speakers))) =
           [\<lparr>speaker = ''Speaker 1'', utext = ''hi''\<rparr>,
            \<lparr>speaker = ''Speaker 2'', utext = ''how are you''\<rparr>] \<and>
         group_consecutive_utterances3 numeric_profile
             (parse_conversation_file
                (final_text (fst (align rnd scenario_transcript numeric_speakers)))) =
           [\<lparr>role = Some Therapist, content = [''hi''], current_speaker = None\<rparr>,
            \<lparr>role = Some Client, content = [''[Partner A]: how are you''],
              current_speaker = Some ''Partner A''\<rparr>] \<and>
         create_dialogue_pairs
             (group_consecutive_utterances3 numeric_profile
                (parse_conversation_file
                   (final_text (fst (align rnd scenario_transcript numeric_speakers))))) =
           [\<lparr>sender = ''gpt'', msg_value = ''hi''\<rparr>,
            \<lparr>sender = ''human'', msg_value = ''[Partner A]: how are you''\<rparr>] \<and>
         convert_file numeric_profile
             (final_text (fst (align rnd scenario_transcript numeric_speakers)))
             window_size = []"
  by (simp add: numeric_align [OF assms] numeric_read numeric_groups3 numeric_windows
      create_dialogue_pairs_def convert_file_def format_line_def)

text \<open>
  Claim C1, as the code has it. For the transcript segments \<open>(0, 5, hi)\<close> and
  \<open>(5, 10, how are you)\<close>, the speaker segments \<open>(0, 4, A)\<close> and \<open>(4, 10, B)\<close>, the therapist
  \<^verbatim>\<open>A\<close> and the partner mapping of \<^verbatim>\<open>B\<close> to \<^verbatim>\<open>Partner A\<close>, the aligner writes the lines
  \<^verbatim>\<open>Speaker A: hi\<close> and \<^verbatim>\<open>Speaker B: how are you\<close>; the converter reads no utterance from
  them, so that there are no groups and no messages, and for every window size there is no
  window.
\<close>

theorem end_to_end_scenario:
  assumes "rounding rnd"
  shows "snd (align rnd scenario_transcript scenario_speakers) = None \<and>
         map format_line (fst (align rnd scenario_transcript scenario_speakers)) =
           [''Speaker A: hi'', ''Speaker B: how are you''] \<and>
         parse_conversation_file
             (final_text (fst (align rnd scenario_transcript scenario_speakers))) = [] \<and>
         group_consecutive_utterances3 claimed_profile
             (parse_conversation_file
                (final_text (fst (align rnd scenario_transcript scenario_speakers)))) = [] \<and>
         create_dialogue_pairs
             (group_consecutive_utterances3 claimed_profile
                (parse_conversation_file
                   (final_text (fst (align rnd scenario_transcript scenario_speakers))))) =
           [] \<and>
         convert_file claimed_profile
             (final_text (fst (align rnd scenario_transcript scenario_speakers)))
             window_size = []"
  by (simp add: scenario_align [OF assms] scenario_read no_utterances convert_file_def
      format_line_def)

theorem end_to_end_scenario_witness:
  "rounding exact \<and>
   map format_line (fst (align exact scenario_transcript scenario_speakers)) =
     [''Speaker A: hi'', ''Speaker B: how are you''] \<and>
   convert_file claimed_profile
     (final_text (fst (align exact scenario_transcript scenario_speakers))) 5 = []"
  using end_to_end_scenario [OF rounding_exact, of 5] by (simp add: rounding_exact)

text \<open>
  The claim as it was stated fails: the lines carry the label \<^verbatim>\<open>Speaker A\<close>, not the tag
  \<^verbatim>\<open>A\<close>; the reader, which looks for \<^verbatim>\<open>Speaker\<close> and a number, finds no utterance in them;
  and a converter set up with the therapist \<^verbatim>\<open>A\<close> and the partner \<^verbatim>\<open>B\<close> knows neither
  label, so that it drops both utterances even when they are handed to it as they are.
\<close>

theorem end_to_end_scenario_counterexample:
  "map format_line (fst (align exact scenario_transcript scenario_speakers)) =
     [''Speaker A: hi'', ''Speaker B: how are you''] \<and>
   map format_line (fst (align exact scenario_transcript scenario_speakers)) \<noteq>
     [''A: hi'', ''B: how are you''] \<and>
   group_consecutive_utterances3 claimed_profile
     (parse_conversation_file
        (final_text (fst (align exact scenario_transcript scenario_speakers)))) = [] \<and>
   group_consecutive_utterances3 claimed_profile
     (fst (align exact scenario_transcript scenario_speakers)) = [] \<and>
   create_dialogue_pairs
     (group_consecutive_utterances3 claimed_profile
        (parse_conversation_file
           (final_text (fst (align exact scenario_transcript scenario_speakers))))) = []"
  by (simp add: scenario_align [OF rounding_exact] scenario_read no_utterances format_line_def)
    (simp add: step_defs claimed_profile_simps)

end
